theory Spec2Isabelle
  imports Complex_Main
begin

section \<open>Numbers\<close>

text \<open>
  A JavaScript number is modelled as an exact rational or \<open>NaN\<close>: the arithmetic below
  neither rounds nor overflows, and there are no infinities and no negative zero.
  \<open>NaN\<close> is kept because \<open>_computeRowList\<close> divides by a width it has just
  overwritten, and every comparison with \<open>NaN\<close> is false. Binary64 arithmetic returns
  the exact result whenever that result is representable; a statement below that
  depends on the value of a sum, a difference or a product therefore assumes that the
  exact value is representable (\<open>representable\<close>, among the derived notions). The
  statements about the structure of the rows, of the position list and of the store
  use of the arithmetic only that an operation on two numbers gives a number and that
  two numbers are comparable.
\<close>

datatype number = Num rat | NaN

fun num_add :: "number \<Rightarrow> number \<Rightarrow> number" where
  "num_add (Num a) (Num b) = Num (a + b)"
| "num_add _ _ = NaN"

fun num_sub :: "number \<Rightarrow> number \<Rightarrow> number" where
  "num_sub (Num a) (Num b) = Num (a - b)"
| "num_sub _ _ = NaN"

fun num_mul :: "number \<Rightarrow> number \<Rightarrow> number" where
  "num_mul (Num a) (Num b) = Num (a * b)"
| "num_mul _ _ = NaN"

text \<open>
  \<open>0 / 0\<close> is \<open>NaN\<close>. A nonzero dividend over zero would be an infinity in JavaScript;
  the only division of \<open>Draw.ts\<close> divides the product \<open>h * s\<close> by \<open>s\<close>, so a zero
  divisor always meets a zero (or \<open>NaN\<close>) dividend there.
\<close>

fun num_div :: "number \<Rightarrow> number \<Rightarrow> number" where
  "num_div (Num a) (Num b) = (if b = 0 then NaN else Num (a / b))"
| "num_div _ _ = NaN"

fun num_lt :: "number \<Rightarrow> number \<Rightarrow> bool" where
  "num_lt (Num a) (Num b) = (a < b)"
| "num_lt _ _ = False"

fun num_le :: "number \<Rightarrow> number \<Rightarrow> bool" where
  "num_le (Num a) (Num b) = (a \<le> b)"
| "num_le _ _ = False"

definition num_gt :: "number \<Rightarrow> number \<Rightarrow> bool" where
  "num_gt a b = num_lt b a"

fun num_ceil :: "number \<Rightarrow> number" where
  "num_ceil (Num a) = Num (of_int \<lceil>a\<rceil>)"
| "num_ceil NaN = NaN"

text \<open>Truthiness of a number: \<open>0\<close> and \<open>NaN\<close> are falsy.\<close>

fun truthy :: "number \<Rightarrow> bool" where
  "truthy (Num a) = (a \<noteq> 0)"
| "truthy NaN = False"

text \<open>
  An optional numeric field that is absent reads as \<open>undefined\<close>. Every use of such a
  field in \<open>Draw.ts\<close> is arithmetic or a comparison, where \<open>undefined\<close> converts to
  \<open>NaN\<close>; \<open>toNumber\<close> is that conversion, and \<open>orNumber a b\<close> is \<open>a || b\<close>.
\<close>

fun toNumber :: "number option \<Rightarrow> number" where
  "toNumber None = NaN"
| "toNumber (Some v) = v"

fun orNumber :: "number option \<Rightarrow> number \<Rightarrow> number" where
  "orNumber None d = d"
| "orNumber (Some v) d = (if truthy v then v else d)"

fun orString :: "string option \<Rightarrow> string \<Rightarrow> string" where
  "orString None d = d"
| "orString (Some v) d = (if v = [] then d else v)"

fun isTrue :: "bool option \<Rightarrow> bool" where
  "isTrue (Some b) = b"
| "isTrue None = False"

section \<open>Data model\<close>

text \<open>
  The interfaces \<open>IElement\<close>, \<open>IElementMetrics\<close>, \<open>IRowElement\<close>, \<open>IRow\<close>,
  \<open>IElementPosition\<close>, \<open>IDrawOption\<close> and \<open>IEditorOption\<close> are declared outside
  \<open>Draw.ts\<close>; the records below hold the fields \<open>Draw.ts\<close> reads and writes. Field
  names carry a prefix per record, since \<open>width\<close> and \<open>height\<close> occur in several.
\<close>

datatype ElementType = TEXT | IMAGE

datatype RowFlex = LEFT | CENTER | RIGHT

record IElement =
  el_type :: "ElementType option"
  el_value :: string
  el_font :: "string option"
  el_size :: "number option"
  el_width :: "number option"
  el_height :: "number option"
  el_bold :: "bool option"
  el_italic :: "bool option"
  el_underline :: "bool option"
  el_strikeout :: "bool option"
  el_highlight :: "string option"
  el_rowFlex :: "RowFlex option"
  el_rowMargin :: "number option"

record IElementMetrics =
  m_width :: number
  m_height :: number
  m_boundingBoxAscent :: number
  m_boundingBoxDescent :: number

text \<open>\<open>IRowElement\<close> is the spread \<open>{...element, metrics, style}\<close>: a copy of the fields.\<close>

record IRowElement = IElement +
  re_metrics :: IElementMetrics
  re_style :: string

record IRow =
  row_width :: number
  row_height :: number
  row_ascent :: number
  row_elementList :: "IRowElement list"
  row_rowFlex :: "RowFlex option"

record Coordinate =
  leftTop :: "number \<times> number"
  leftBottom :: "number \<times> number"
  rightTop :: "number \<times> number"
  rightBottom :: "number \<times> number"

record IElementPosition =
  pos_index :: nat
  pos_value :: string
  pos_rowNo :: nat
  pos_metrics :: IElementMetrics
  pos_ascent :: number
  pos_lineHeight :: number
  pos_isLastLetter :: bool
  pos_coordinate :: Coordinate

record IDrawOption =
  curIndex :: "int option"
  isSubmitHistory :: "bool option"
  isSetCursor :: "bool option"
  isComputeRowList :: "bool option"

record IEditorOption =
  defaultSize :: number
  defaultFont :: string
  margins :: "number \<times> number \<times> number \<times> number"
  defaultRowMargin :: number
  defaultBasicRowMarginHeight :: number

record IRange =
  startIndex :: int
  endIndex :: int

record DOMRect =
  rect_x :: number
  rect_y :: number
  rect_width :: number
  rect_height :: number

record Canvas =
  cv_width :: number
  cv_height :: number
  cv_styleHeight :: string

record TextMetrics =
  tm_width :: number
  tm_actualBoundingBoxAscent :: number
  tm_actualBoundingBoxDescent :: number

text \<open>
  What the host platform and the constants module provide: the line-break marker
  \<open>ZERO\<close>, glyph measurement under a font, the bounding rectangle of the canvas and
  the conversion of a number to a string in a template literal.
\<close>

record Platform =
  ZERO :: string
  measureText :: "string \<Rightarrow> string \<Rightarrow> TextMetrics"
  getBoundingClientRect :: "Canvas \<Rightarrow> DOMRect"
  numberToString :: "number \<Rightarrow> string"

subsection \<open>Objects and arrays\<close>

text \<open>
  Elements are objects and element lists are arrays, both reached by reference:
  \<open>_computeRowList\<close> writes to an element through the array, and a history snapshot
  must not share either with the live sequence. The store maps addresses to element
  objects and to arrays of element addresses; \<open>fresh\<close> is the next unused address.
\<close>

record Store =
  elems :: "nat \<Rightarrow> IElement"
  arrays :: "nat \<Rightarrow> nat list"
  fresh :: nat

definition readList :: "Store \<Rightarrow> nat \<Rightarrow> IElement list" where
  "readList s arr = map (elems s) (arrays s arr)"

text \<open>
  Modelled from the spec: \<open>deepClone\<close> of \<open>utils\<close> is not part of the source at hand.
  The spec calls it a deep copy that never aliases the live sequence: a new array of
  new element objects with the same field values.
\<close>

fun cloneElems :: "nat list \<Rightarrow> Store \<Rightarrow> nat list \<times> Store" where
  "cloneElems [] s = ([], s)"
| "cloneElems (a # as) s =
     (let s1 = s\<lparr>elems := (elems s)(fresh s := elems s a), fresh := Suc (fresh s)\<rparr>;
          (bs, s2) = cloneElems as s1
      in (fresh s # bs, s2))"

definition deepClone :: "nat \<Rightarrow> Store \<Rightarrow> nat \<times> Store" where
  "deepClone arr s =
     (let (bs, s1) = cloneElems (arrays s arr) s
      in (fresh s1, s1\<lparr>arrays := (arrays s1)(fresh s1 := bs), fresh := Suc (fresh s1)\<rparr>))"

subsection \<open>Collaborators\<close>

text \<open>
  The painters, the cursor and the search highlighter only draw. Their calls are
  recorded in order; a call made while an element is painted carries that element's
  running index as its first argument.
\<close>

datatype call =
    CursorRecoveryCursor
  | CtxClearRect number number number number
  | BackgroundRender DOMRect
  | MarginRender DOMRect
  | UnderlineRender nat number number number
  | StrikeoutRender nat number number number
  | HighlightRender nat string number number number number
  | ImageParticleRender nat IRowElement number number
  | TextParticleRecord nat IRowElement number number
  | TextParticleComplete
  | RangeRender nat number number number number
  | SearchRender
  | CursorDrawCursor

text \<open>
  The closure that \<open>render\<close> hands to the history manager, as the values of the
  variables it captures.
\<close>

record HistoryStep =
  hs_oldElementList :: nat
  hs_startIndex :: int
  hs_endIndex :: int
  hs_curIndex :: int

text \<open>
  Modelled from the spec: \<open>HistoryManager\<close> is not part of the source at hand.
  \<open>execute\<close> appends a step and clears the redo stack.
\<close>

record HistoryManager =
  undoStack :: "HistoryStep list"
  redoStack :: "HistoryStep list"

definition execute :: "HistoryStep \<Rightarrow> HistoryManager \<Rightarrow> HistoryManager" where
  "execute fn h = \<lparr>undoStack = undoStack h @ [fn], redoStack = []\<rparr>"

text \<open>
  The fields of the class \<open>Draw\<close> that \<open>render\<close> reads or writes, with the state of
  its collaborators: the position list and the caret position of \<open>Position\<close>, the
  range of \<open>RangeManager\<close>, the font of the drawing context and the calls made so far.
  \<open>elementList\<close> is the address of the array of the live sequence.
\<close>

record Draw =
  canvas :: Canvas
  ctxFont :: string
  options :: IEditorOption
  elementList :: nat
  store :: Store
  rowList :: "IRow list"
  positionList :: "IElementPosition list"
  cursorPosition :: "IElementPosition option"
  range :: IRange
  historyManager :: HistoryManager
  searchMatchList :: "number list list option"
  calls :: "call list"

section \<open>Row layout\<close>

text \<open>
  \<open>_getFont\<close>, and the inner width of lines 163 to 168. The font string is kept as
  written; the canvas would normalise it when it is read back from \<open>ctx.font\<close>.
\<close>

definition getFont :: "Platform \<Rightarrow> IEditorOption \<Rightarrow> ('a IElement_scheme) \<Rightarrow> string" where
  "getFont P opts el =
     (if isTrue (el_italic el) then ''italic '' else '''') @
     (if isTrue (el_bold el) then ''bold '' else '''') @
     numberToString P (orNumber (el_size el) (defaultSize opts)) @ ''px '' @
     orString (el_font el) (defaultFont opts)"

definition innerWidthOf :: "Platform \<Rightarrow> Draw \<Rightarrow> number" where
  "innerWidthOf P d =
     (let width = rect_width (getBoundingClientRect P (canvas d));
          (m0, m1, m2, m3) = margins (options d);
          leftTopPoint = (m3, m0);
          rightTopPoint = (num_sub width m1, m0)
      in num_sub (fst rightTopPoint) (fst leftTopPoint))"

text \<open>
  The image branch of the loop body (lines 190 to 201): the element as it is after the
  branch, the store after the write, and the metrics.
\<close>

definition imageMetrics ::
  "number \<Rightarrow> IRow \<Rightarrow> nat \<Rightarrow> Store \<Rightarrow> IElement \<times> Store \<times> IElementMetrics" where
  "imageMetrics innerWidth curRow a s =
     (let element = elems s a;
          height0 = toNumber (el_height element);
          (element1, s1) =
            (if num_gt (num_add (row_width curRow) (toNumber (el_width element))) innerWidth
             then
               let surplusWidth = num_sub innerWidth (row_width curRow);
                   e1 = element\<lparr>el_width := Some surplusWidth\<rparr>;
                   e2 = e1\<lparr>el_height := Some (num_div (num_mul (toNumber (el_height e1)) surplusWidth)
                                                      (toNumber (el_width e1)))\<rparr>
               in (e2, s\<lparr>elems := (elems s)(a := e2)\<rparr>)
             else (element, s))
      in (element1, s1,
          \<lparr>m_width = toNumber (el_width element1), m_height = height0,
           m_boundingBoxAscent = Num 0,
           m_boundingBoxDescent = toNumber (el_height element1)\<rparr>))"

definition textMetrics :: "Platform \<Rightarrow> IEditorOption \<Rightarrow> string \<Rightarrow> IElement \<Rightarrow> IElementMetrics" where
  "textMetrics P opts fnt element =
     (let fontMetrics = measureText P fnt (el_value element)
      in \<lparr>m_width = tm_width fontMetrics,
          m_height = orNumber (el_size element) (defaultSize opts),
          m_boundingBoxAscent =
            (if el_value element = ZERO P then defaultSize opts
             else tm_actualBoundingBoxAscent fontMetrics),
          m_boundingBoxDescent = tm_actualBoundingBoxDescent fontMetrics\<rparr>)"

text \<open>
  Lines 184 to 209: the metrics of the element at address \<open>a\<close>, with the element as it
  is afterwards, the store and the font of the drawing context.
\<close>

definition measureElement ::
  "Platform \<Rightarrow> IEditorOption \<Rightarrow> number \<Rightarrow> IRow \<Rightarrow> nat \<Rightarrow> Store \<Rightarrow> string
     \<Rightarrow> IElement \<times> Store \<times> string \<times> IElementMetrics" where
  "measureElement P opts innerWidth curRow a s fnt =
     (let element0 = elems s a
      in if el_type element0 = Some IMAGE
         then (case imageMetrics innerWidth curRow a s of (e, s', m) \<Rightarrow> (e, s', fnt, m))
         else (element0, s, getFont P opts element0,
               textMetrics P opts (getFont P opts element0) element0))"

text \<open>Lines 219 to 238: the element opens a new row or joins the current one.\<close>

definition placeElement ::
  "Platform \<Rightarrow> number \<Rightarrow> nat \<Rightarrow> IRow list \<Rightarrow> IElement \<Rightarrow> IRowElement \<Rightarrow> number \<Rightarrow> number
     \<Rightarrow> IRow list" where
  "placeElement P innerWidth i rows element rowElement ascent height =
     (let curRow = last rows;
          metrics = re_metrics rowElement
      in if num_gt (num_add (row_width curRow) (m_width metrics)) innerWidth
            \<or> (i \<noteq> 0 \<and> el_value element = ZERO P)
         then rows @ [\<lparr>row_width = m_width metrics, row_height = height, row_ascent = ascent,
                       row_elementList = [rowElement], row_rowFlex = el_rowFlex rowElement\<rparr>]
         else
           let curRow1 = curRow\<lparr>row_width := num_add (row_width curRow) (m_width metrics)\<rparr>;
               curRow2 =
                 (if num_lt (row_height curRow1) height
                  then curRow1\<lparr>row_height := height,
                               row_ascent := (if el_type element = Some IMAGE
                                              then toNumber (el_height element) else ascent)\<rparr>
                  else curRow1);
               curRow3 = curRow2\<lparr>row_elementList := row_elementList curRow2 @ [rowElement]\<rparr>
           in butlast rows @ [curRow3])"

text \<open>
  One iteration of the loop of \<open>_computeRowList\<close>, for index \<open>i\<close> and the element at
  address \<open>a\<close>. The state is the store, the font of the drawing context and the rows so
  far. With no row to read, \<open>curRow\<close> is \<open>undefined\<close> and reading \<open>curRow.width\<close>
  throws a TypeError: \<open>None\<close>.
\<close>

definition rowStep ::
  "Platform \<Rightarrow> IEditorOption \<Rightarrow> number \<Rightarrow> nat \<Rightarrow> nat \<Rightarrow> Store \<times> string \<times> IRow list
     \<Rightarrow> (Store \<times> string \<times> IRow list) option" where
  "rowStep P opts innerWidth i a st =
     (case st of (s, fnt, rows) \<Rightarrow>
      if rows = [] then None
      else
        let curRow = last rows;
            rowMargin = num_mul (defaultBasicRowMarginHeight opts)
                          (orNumber (el_rowMargin (elems s a)) (defaultRowMargin opts));
            (element, s1, fnt1, metrics) = measureElement P opts innerWidth curRow a s fnt;
            ascent = num_add (m_boundingBoxAscent metrics) rowMargin;
            descent = num_add (m_boundingBoxDescent metrics) rowMargin;
            height = num_add ascent descent;
            rowElement = IElement.extend element \<lparr>re_metrics = metrics, re_style = fnt1\<rparr>
        in Some (s1, fnt1, placeElement P innerWidth i rows element rowElement ascent height))"

fun rowLoop ::
  "Platform \<Rightarrow> IEditorOption \<Rightarrow> number \<Rightarrow> nat \<Rightarrow> nat list \<Rightarrow> Store \<times> string \<times> IRow list
     \<Rightarrow> (Store \<times> string \<times> IRow list) option" where
  "rowLoop P opts innerWidth i [] st = Some st"
| "rowLoop P opts innerWidth i (a # as) st =
     (case rowStep P opts innerWidth i a st of
        None \<Rightarrow> None
      | Some st' \<Rightarrow> rowLoop P opts innerWidth (Suc i) as st')"

definition initialRows :: "Store \<Rightarrow> nat list \<Rightarrow> IRow list" where
  "initialRows s els =
     (if els \<noteq> []
      then [\<lparr>row_width = Num 0, row_height = Num 0, row_ascent = Num 0, row_elementList = [],
             row_rowFlex = (if 1 < length els then el_rowFlex (elems s (els ! 1)) else None)\<rparr>]
      else [])"

text \<open>
  \<open>_computeRowList\<close>. The font set on the drawing context inside the loop is undone by
  \<open>ctx.restore()\<close>, so only the store and the row list change.
\<close>

definition computeRowList :: "Platform \<Rightarrow> Draw \<Rightarrow> Draw option" where
  "computeRowList P d =
     (let innerWidth = innerWidthOf P d;
          els = arrays (store d) (elementList d)
      in case rowLoop P (options d) innerWidth 0 els
                (store d, ctxFont d, initialRows (store d) els) of
           None \<Rightarrow> None
         | Some (s, fnt, rows) \<Rightarrow> Some (d\<lparr>store := s, rowList := rows\<rparr>))"

section \<open>Rendering\<close>

text \<open>The variables of the paint loop of \<open>render\<close>.\<close>

record Paint =
  p_x :: number
  p_y :: number
  p_index :: nat
  p_positionList :: "IElementPosition list"
  p_calls :: "call list"

text \<open>The body of the inner loop (lines 291 to 337), for row \<open>i\<close> and member \<open>j\<close>.\<close>

definition paintElement :: "IRange \<Rightarrow> nat \<Rightarrow> IRow \<Rightarrow> nat \<Rightarrow> IRowElement \<Rightarrow> Paint \<Rightarrow> Paint" where
  "paintElement rng i curRow j element p =
     (let x = p_x p; y = p_y p; index = p_index p;
          metrics = re_metrics element;
          offsetY = (if el_type element = Some IMAGE
                     then num_sub (row_ascent curRow) (toNumber (el_height element))
                     else row_ascent curRow);
          positionItem =
            \<lparr>pos_index = index, pos_value = el_value element, pos_rowNo = i,
             pos_metrics = metrics, pos_ascent = offsetY, pos_lineHeight = row_height curRow,
             pos_isLastLetter = (Suc j = length (row_elementList curRow)),
             pos_coordinate =
               \<lparr>leftTop = (x, y),
                leftBottom = (x, num_add y (row_height curRow)),
                rightTop = (num_add x (m_width metrics), y),
                rightBottom = (num_add x (m_width metrics), num_add y (row_height curRow))\<rparr>\<rparr>;
          underlineCalls =
            (if isTrue (el_underline element)
             then [UnderlineRender index x (num_add y (row_height curRow)) (m_width metrics)]
             else []);
          strikeoutCalls =
            (if isTrue (el_strikeout element)
             then [StrikeoutRender index x (num_add y (num_div (row_height curRow) (Num 2)))
                     (m_width metrics)]
             else []);
          highlightCalls =
            (case el_highlight element of
               None \<Rightarrow> []
             | Some h \<Rightarrow>
                 if h = [] then []
                 else [HighlightRender index h x y (m_width metrics) (row_height curRow)]);
          particleCalls =
            (if el_type element = Some IMAGE
             then [TextParticleComplete, ImageParticleRender index element x (num_add y offsetY)]
             else [TextParticleRecord index element x (num_add y offsetY)]);
          rangeCalls =
            (if startIndex rng \<noteq> endIndex rng \<and> startIndex rng < int index
                \<and> int index \<le> endIndex rng
             then [RangeRender index x y (m_width metrics) (row_height curRow)]
             else [])
      in p\<lparr>p_x := num_add x (m_width metrics),
           p_index := Suc index,
           p_positionList := p_positionList p @ [positionItem],
           p_calls := p_calls p @ underlineCalls @ strikeoutCalls @ highlightCalls
                        @ particleCalls @ rangeCalls\<rparr>)"

fun paintElements :: "IRange \<Rightarrow> nat \<Rightarrow> IRow \<Rightarrow> nat \<Rightarrow> IRowElement list \<Rightarrow> Paint \<Rightarrow> Paint" where
  "paintElements rng i curRow j [] p = p"
| "paintElements rng i curRow j (e # es) p =
     paintElements rng i curRow (Suc j) es (paintElement rng i curRow j e p)"

text \<open>The body of the outer loop (lines 280 to 341).\<close>

definition paintRow :: "Canvas \<Rightarrow> IEditorOption \<Rightarrow> IRange \<Rightarrow> nat \<Rightarrow> IRow \<Rightarrow> Paint \<Rightarrow> Paint" where
  "paintRow cv opts rng i curRow p =
     (let (m0, m1, m2, m3) = margins opts;
          p1 = (case row_rowFlex curRow of
                  None \<Rightarrow> p
                | Some f \<Rightarrow>
                    if f \<noteq> LEFT
                    then
                      let canvasInnerWidth = num_sub (num_sub (cv_width cv) m1) m3
                      in if f = CENTER
                         then p\<lparr>p_x := num_add (p_x p)
                                   (num_div (num_sub canvasInnerWidth (row_width curRow)) (Num 2))\<rparr>
                         else p\<lparr>p_x := num_add (p_x p)
                                   (num_sub canvasInnerWidth (row_width curRow))\<rparr>
                    else p);
          p2 = paintElements rng i curRow 0 (row_elementList curRow) p1
      in p2\<lparr>p_calls := p_calls p2 @ [TextParticleComplete],
            p_x := m3,
            p_y := num_add (p_y p2) (row_height curRow)\<rparr>)"

fun paintRows :: "Canvas \<Rightarrow> IEditorOption \<Rightarrow> IRange \<Rightarrow> nat \<Rightarrow> IRow list \<Rightarrow> Paint \<Rightarrow> Paint" where
  "paintRows cv opts rng i [] p = p"
| "paintRows cv opts rng i (r # rs) p =
     paintRows cv opts rng (Suc i) rs (paintRow cv opts rng i r p)"

text \<open>
  Lines 253 to 262: the layout pass and the growth of the canvas. The history snapshot
  and the paint loop come after it.
\<close>

definition layoutPhase :: "Platform \<Rightarrow> bool \<Rightarrow> Draw \<Rightarrow> Draw option" where
  "layoutPhase P computeRows d =
     (if computeRows
      then (case computeRowList P d of
              None \<Rightarrow> None
            | Some d1 \<Rightarrow>
                let (m0, m1, m2, m3) = margins (options d1);
                    rowHeight = foldl (\<lambda>pre cur. num_add (row_height cur) pre) (Num 0) (rowList d1)
                in if num_gt rowHeight (num_sub (num_sub (cv_height (canvas d1)) m0) m2)
                   then
                     let height = num_ceil (num_add (num_add rowHeight m0) m2)
                     in Some (d1\<lparr>canvas := (canvas d1)\<lparr>cv_height := height,
                                   cv_styleHeight := numberToString P height @ ''px''\<rparr>\<rparr>)
                   else Some d1)
      else Some d)"

text \<open>Lines 263 to 354: clearing, the paint loop, the search highlight and the caret.\<close>

definition paintPhase :: "Platform \<Rightarrow> int option \<Rightarrow> bool \<Rightarrow> Draw \<Rightarrow> int \<times> Draw" where
  "paintPhase P curIndex0 setCursor d =
     (let (m0, m1, m2, m3) = margins (options d);
          canvasRect = getBoundingClientRect P (canvas d);
          leftTopPoint = (m3, m0);
          p0 = \<lparr>p_x = fst leftTopPoint, p_y = snd leftTopPoint, p_index = 0, p_positionList = [],
                p_calls = calls d @
                  [CursorRecoveryCursor,
                   CtxClearRect (Num 0) (Num 0) (cv_width (canvas d)) (cv_height (canvas d)),
                   BackgroundRender canvasRect, MarginRender canvasRect]\<rparr>;
          p1 = paintRows (canvas d) (options d) (range d) 0 (rowList d) p0;
          searchCalls = (case searchMatchList d of None \<Rightarrow> [] | Some _ \<Rightarrow> [SearchRender]);
          positionList1 = p_positionList p1;
          curIndex1 = (case curIndex0 of
                         None \<Rightarrow> int (length positionList1) - 1
                       | Some c \<Rightarrow> c);
          d1 = d\<lparr>positionList := positionList1, calls := p_calls p1 @ searchCalls\<rparr>;
          d2 = (if setCursor
                then d1\<lparr>cursorPosition :=
                          (if 0 \<le> curIndex1 \<and> curIndex1 < int (length positionList1)
                           then Some (positionList1 ! nat curIndex1) else None),
                        calls := calls d1 @ [CursorDrawCursor]\<rparr>
                else d1)
      in (curIndex1, d2))"

text \<open>Lines 355 to 365: the history entry, taken when the painting is done.\<close>

definition historyPhase :: "int \<Rightarrow> Draw \<Rightarrow> Draw" where
  "historyPhase curIndex1 d =
     (let (oldElementList, s1) = deepClone (elementList d) (store d);
          fn = \<lparr>hs_oldElementList = oldElementList,
                hs_startIndex = startIndex (range d), hs_endIndex = endIndex (range d),
                hs_curIndex = curIndex1\<rparr>
      in d\<lparr>store := s1, historyManager := execute fn (historyManager d)\<rparr>)"

fun orTrue :: "bool option \<Rightarrow> bool" where
  "orTrue None = True"
| "orTrue (Some b) = b"

definition render :: "Platform \<Rightarrow> IDrawOption option \<Rightarrow> Draw \<Rightarrow> Draw option" where
  "render P payload d =
     (let curIndex0 = (case payload of None \<Rightarrow> None | Some opt \<Rightarrow> curIndex opt);
          submitHistory = (case payload of None \<Rightarrow> True | Some opt \<Rightarrow> orTrue (isSubmitHistory opt));
          setCursor = (case payload of None \<Rightarrow> True | Some opt \<Rightarrow> orTrue (isSetCursor opt));
          computeRows = (case payload of None \<Rightarrow> True | Some opt \<Rightarrow> orTrue (isComputeRowList opt))
      in case layoutPhase P computeRows d of
           None \<Rightarrow> None
         | Some d1 \<Rightarrow>
             let (curIndex1, d2) = paintPhase P curIndex0 setCursor d1
             in Some (if submitHistory then historyPhase curIndex1 d2 else d2))"

text \<open>
  Invoking a history step: the closure body of lines 360 to 364, with
  \<open>range.setRange\<close> as the assignment of the two indices.
\<close>

definition invokeStep :: "Platform \<Rightarrow> HistoryStep \<Rightarrow> Draw \<Rightarrow> Draw option" where
  "invokeStep P fn d =
     (let d1 = d\<lparr>range := \<lparr>startIndex = hs_startIndex fn, endIndex = hs_endIndex fn\<rparr>\<rparr>;
          (arr, s1) = deepClone (hs_oldElementList fn) (store d1);
          d2 = d1\<lparr>elementList := arr, store := s1\<rparr>
      in render P (Some \<lparr>curIndex = Some (hs_curIndex fn), isSubmitHistory = Some False,
                         isSetCursor = None, isComputeRowList = None\<rparr>) d2)"

section \<open>Derived notions\<close>

text \<open>
  The number of members over all rows, the values of the members read row by row, and
  the values and the width of one row.
\<close>

definition rowCount :: "IRow list \<Rightarrow> nat" where
  "rowCount rows = sum_list (map (\<lambda>r. length (row_elementList r)) rows)"

definition rowValues :: "IRow list \<Rightarrow> string list" where
  "rowValues rows = concat (map (\<lambda>r. map el_value (row_elementList r)) rows)"

definition rowSummary :: "IRow \<Rightarrow> string list \<times> number" where
  "rowSummary r = (map el_value (row_elementList r), row_width r)"

text \<open>
  The test of line 219 that opens a new row: the current row would grow beyond the
  inner width with a member of width \<open>w\<close>, or the element of value \<open>v\<close> is the
  line-break marker and not the first element.
\<close>

definition breaksRow :: "Platform \<Rightarrow> number \<Rightarrow> nat \<Rightarrow> IRow \<Rightarrow> string \<Rightarrow> number \<Rightarrow> bool" where
  "breaksRow P innerWidth i curRow v w =
     (num_gt (num_add (row_width curRow) w) innerWidth \<or> (i \<noteq> 0 \<and> v = ZERO P))"

text \<open>
  Width containment. A row is contained when its width is at most the inner width, or it
  holds a single member whose own width exceeds the inner width, or it is the first row,
  left empty with width 0, and the inner width is negative.
\<close>

fun isNum :: "number \<Rightarrow> bool" where
  "isNum (Num _) = True"
| "isNum NaN = False"

definition oversizeAlone :: "number \<Rightarrow> IRow \<Rightarrow> bool" where
  "oversizeAlone innerWidth r =
     (case row_elementList r of
        [e] \<Rightarrow> row_width r = m_width (re_metrics e) \<and> num_gt (row_width r) innerWidth
      | _ \<Rightarrow> False)"

definition rowContained :: "number \<Rightarrow> nat \<Rightarrow> IRow \<Rightarrow> bool" where
  "rowContained innerWidth k r =
     (num_le (row_width r) innerWidth \<or> oversizeAlone innerWidth r
      \<or> (k = 0 \<and> row_elementList r = [] \<and> row_width r = Num 0 \<and> num_lt innerWidth (Num 0)))"

definition rowsContained :: "number \<Rightarrow> IRow list \<Rightarrow> bool" where
  "rowsContained innerWidth rows =
     list_all (\<lambda>k. rowContained innerWidth k (rows ! k)) [0..<length rows]"

text \<open>
  The invariant of the layout loop for width containment: only the first row may be
  empty, and every width is a number.
\<close>

definition containedInv :: "number \<Rightarrow> IRow list \<Rightarrow> bool" where
  "containedInv iw rows =
     (rows \<noteq> []
      \<and> (\<forall>r \<in> set rows. isNum (row_width r))
      \<and> (num_le (row_width (hd rows)) iw \<or> oversizeAlone iw (hd rows)
           \<or> (row_elementList (hd rows) = [] \<and> row_width (hd rows) = Num 0))
      \<and> (\<forall>r \<in> set (tl rows). num_le (row_width r) iw \<or> oversizeAlone iw r))"

text \<open>
  The invariant of the layout loop for row-flex: the first row keeps the alignment it
  was created with, every later row has the alignment of its first member.
\<close>

definition flexInv :: "RowFlex option \<Rightarrow> IRow list \<Rightarrow> bool" where
  "flexInv f0 rows =
     (rows \<noteq> [] \<and> row_rowFlex (hd rows) = f0
      \<and> (\<forall>r \<in> set (tl rows).
            row_elementList r \<noteq> [] \<and> row_rowFlex r = el_rowFlex (hd (row_elementList r))))"

text \<open>
  What the layout pass may change of an element: the width and the height, and only
  of an image.
\<close>

definition sizeOnly :: "IElement \<Rightarrow> IElement \<Rightarrow> bool" where
  "sizeOnly e e' =
     (e' = e\<lparr>el_width := el_width e', el_height := el_height e'\<rparr>
      \<and> (el_type e \<noteq> Some IMAGE \<longrightarrow> e' = e))"

text \<open>
  The indices at which the selection rectangle is painted, in the order of the calls,
  and the test of line 333 on an index.
\<close>

fun rangePainted :: "call list \<Rightarrow> nat list" where
  "rangePainted [] = []"
| "rangePainted (RangeRender i x y w h # cs) = i # rangePainted cs"
| "rangePainted (c # cs) = rangePainted cs"

definition inRange :: "IRange \<Rightarrow> nat \<Rightarrow> bool" where
  "inRange rng i = (startIndex rng < int i \<and> int i \<le> endIndex rng)"

text \<open>The options of a render call, with their defaults.\<close>

definition submitsHistory :: "IDrawOption option \<Rightarrow> bool" where
  "submitsHistory payload = (case payload of None \<Rightarrow> True | Some opt \<Rightarrow> orTrue (isSubmitHistory opt))"

definition setsCursor :: "IDrawOption option \<Rightarrow> bool" where
  "setsCursor payload = (case payload of None \<Rightarrow> True | Some opt \<Rightarrow> orTrue (isSetCursor opt))"

definition computesRows :: "IDrawOption option \<Rightarrow> bool" where
  "computesRows payload = (case payload of None \<Rightarrow> True | Some opt \<Rightarrow> orTrue (isComputeRowList opt))"

definition targetIndex :: "IDrawOption option \<Rightarrow> int option" where
  "targetIndex payload = (case payload of None \<Rightarrow> None | Some opt \<Rightarrow> curIndex opt)"

text \<open>
  The addresses of the live sequence are allocated, and the element sequence held by
  the most recent history entry.
\<close>

definition storeOk :: "Draw \<Rightarrow> bool" where
  "storeOk d =
     (elementList d < fresh (store d)
      \<and> list_all (\<lambda>a. a < fresh (store d)) (arrays (store d) (elementList d)))"

definition snapshot :: "Draw \<Rightarrow> IElement list" where
  "snapshot d = readList (store d) (hs_oldElementList (last (undoStack (historyManager d))))"

text \<open>
  The state of the layout pass of an editor after the first \<open>k\<close> elements of its
  sequence: the loop of \<open>_computeRowList\<close> run from index 0 over that prefix.
\<close>

definition layoutAfter :: "Platform \<Rightarrow> Draw \<Rightarrow> nat \<Rightarrow> (Store \<times> string \<times> IRow list) option" where
  "layoutAfter P d k =
     (let els = arrays (store d) (elementList d)
      in rowLoop P (options d) (innerWidthOf P d) 0 (take k els)
           (store d, ctxFont d, initialRows (store d) els))"

text \<open>
  The finite values of a binary64 double: \<open>m * 2 ^ e\<close> with \<open>|m| < 2 ^ 53\<close> and
  \<open>e\<close> from \<open>- 1074\<close> to \<open>971\<close>, written with \<open>k = e + 1074\<close>. An operation on doubles
  returns the exact result whenever that result is representable; the arithmetic of
  the model is exact, so a statement about the value of a sum, a difference or a
  product is made for representable results, where the two agree.
\<close>

definition representable :: "rat \<Rightarrow> bool" where
  "representable r =
     (\<exists>m :: int. \<exists>k :: nat. \<bar>m\<bar> < 2 ^ 53 \<and> k \<le> 2045 \<and> r * 2 ^ 1074 = of_int m * 2 ^ k)"

section \<open>Sample inputs\<close>

text \<open>
  A platform on which every glyph is 10 wide (the line-break marker, here the bytes of
  U+200B, is 0 wide), options with margins of 10 on every side, and a store that holds
  the given elements at the addresses \<open>0, 1, ...\<close> with the array of the sequence
  behind them. \<open>mkDraw w els\<close> is an editor on a canvas \<open>w\<close> wide, so the inner width
  is \<open>w - 20\<close>.
\<close>

definition zwsp :: string where
  "zwsp = [CHR 0xE2, CHR 0x80, CHR 0x8B]"

definition demoPlatform :: Platform where
  "demoPlatform =
     \<lparr>ZERO = zwsp,
      measureText = (\<lambda>fnt v. \<lparr>tm_width = (if v = zwsp then Num 0 else Num 10),
                                tm_actualBoundingBoxAscent = Num 8,
                                tm_actualBoundingBoxDescent = Num 2\<rparr>),
      getBoundingClientRect = (\<lambda>cv. \<lparr>rect_x = Num 0, rect_y = Num 0,
                                       rect_width = cv_width cv, rect_height = cv_height cv\<rparr>),
      numberToString = (\<lambda>n. ''16'')\<rparr>"

definition textEl :: "string \<Rightarrow> IElement" where
  "textEl v =
     \<lparr>el_type = None, el_value = v, el_font = None, el_size = None, el_width = None,
      el_height = None, el_bold = None, el_italic = None, el_underline = None,
      el_strikeout = None, el_highlight = None, el_rowFlex = None, el_rowMargin = None\<rparr>"

definition imageEl :: "rat \<Rightarrow> rat \<Rightarrow> IElement" where
  "imageEl w h = (textEl [])\<lparr>el_type := Some IMAGE, el_width := Some (Num w), el_height := Some (Num h)\<rparr>"

definition flexEl :: "string \<Rightarrow> RowFlex option \<Rightarrow> IElement" where
  "flexEl v f = (textEl v)\<lparr>el_rowFlex := f\<rparr>"

definition demoOptions :: IEditorOption where
  "demoOptions = \<lparr>defaultSize = Num 16, defaultFont = ''Yahei'',
                  margins = (Num 10, Num 10, Num 10, Num 10),
                  defaultRowMargin = Num 1, defaultBasicRowMarginHeight = Num 8\<rparr>"

definition mkStore :: "IElement list \<Rightarrow> Store" where
  "mkStore els =
     \<lparr>elems = (\<lambda>a. if a < length els then els ! a else textEl []),
      arrays = (\<lambda>a. if a = length els then [0..<length els] else []),
      fresh = Suc (length els)\<rparr>"

definition mkDraw :: "rat \<Rightarrow> IElement list \<Rightarrow> Draw" where
  "mkDraw w els =
     \<lparr>canvas = \<lparr>cv_width = Num w, cv_height = Num 100, cv_styleHeight = ''100px''\<rparr>,
      ctxFont = ''10px sans-serif'',
      options = demoOptions,
      elementList = length els,
      store = mkStore els,
      rowList = [],
      positionList = [],
      cursorPosition = None,
      range = \<lparr>startIndex = 0, endIndex = 0\<rparr>,
      historyManager = \<lparr>undoStack = [], redoStack = []\<rparr>,
      searchMatchList = None,
      calls = []\<rparr>"

definition widen :: "rat \<Rightarrow> Draw \<Rightarrow> Draw" where
  "widen w d = d\<lparr>canvas := (canvas d)\<lparr>cv_width := Num w\<rparr>\<rparr>"

text \<open>
  Glyphs with alignments; a canvas narrower than its side margins; an image of 100 by
  50 after two glyphs with 5 left in the row, after four glyphs with 40 left, and after
  two glyphs with nothing left; an image after one glyph with nothing left.
\<close>

definition flexDraw :: Draw where
  "flexDraw = mkDraw 45 [flexEl ''A'' None, flexEl ''B'' (Some LEFT), flexEl ''C'' (Some RIGHT)]"

definition narrowDraw :: Draw where
  "narrowDraw = mkDraw 10 [textEl ''A'']"

definition imageDraw :: Draw where
  "imageDraw = mkDraw 45 [textEl ''A'', textEl ''B'', imageEl 100 50]"

definition roomyDraw :: Draw where
  "roomyDraw = mkDraw 100 [textEl ''A'', textEl ''B'', textEl ''C'', textEl ''D'', imageEl 100 50]"


definition tightDraw :: Draw where
  "tightDraw = mkDraw 30 [textEl ''A'', imageEl 60 30]"

text \<open>Two line-break markers, each followed by a glyph.\<close>

definition breakDraw :: Draw where
  "breakDraw = mkDraw 45 [textEl zwsp, textEl ''A'', textEl zwsp, textEl ''B'']"

text \<open>Glyphs with a selection: the range from 0 to 2 over three, from 1 to 3 over five.\<close>

definition selDraw2 :: Draw where
  "selDraw2 = (mkDraw 45 [textEl ''A'', textEl ''B'', textEl ''C''])
                \<lparr>range := \<lparr>startIndex = 0, endIndex = 2\<rparr>\<rparr>"

definition selDraw :: Draw where
  "selDraw = (mkDraw 100 [textEl ''A'', textEl ''B'', textEl ''C'', textEl ''D'', textEl ''E''])
               \<lparr>range := \<lparr>startIndex = 1, endIndex = 3\<rparr>\<rparr>"

section \<open>Unfolding the model\<close>

lemmas model_defs = computeRowList_def rowStep_def measureElement_def placeElement_def
  textMetrics_def imageMetrics_def getFont_def innerWidthOf_def initialRows_def num_gt_def
  IElement.defs Let_def

lemmas demo_defs = demoPlatform_def mkDraw_def mkStore_def demoOptions_def textEl_def
  imageEl_def zwsp_def

section \<open>Row completeness\<close>

lemma rowCount_append [simp]: "rowCount (xs @ ys) = rowCount xs + rowCount ys"
  by (simp add: rowCount_def)

lemma rowValues_append [simp]: "rowValues (xs @ ys) = rowValues xs @ rowValues ys"
  by (simp add: rowValues_def)

lemma placeElement_nonempty: "placeElement P iw i rows e re asc h \<noteq> []"
  by (simp add: placeElement_def Let_def)

lemma placeElement_count:
  assumes "rows \<noteq> []"
  shows "rowCount (placeElement P iw i rows e re asc h) = Suc (rowCount rows)"
proof -
  have split: "rowCount rows = rowCount (butlast rows) + length (row_elementList (last rows))"
    using assms rowCount_append [of "butlast rows" "[last rows]"]
    by (simp add: rowCount_def)
  show ?thesis
    by (simp add: placeElement_def Let_def split) (simp add: rowCount_def)
qed

lemma placeElement_values:
  assumes "rows \<noteq> []"
  shows "rowValues (placeElement P iw i rows e re asc h) = rowValues rows @ [el_value re]"
proof -
  have split: "rowValues rows = rowValues (butlast rows) @ map el_value (row_elementList (last rows))"
    using assms rowValues_append [of "butlast rows" "[last rows]"]
    by (simp add: rowValues_def)
  show ?thesis
    by (simp add: placeElement_def Let_def split) (simp add: rowValues_def)
qed

lemma measureElement_value:
  "measureElement P opts iw r a s f = (e, s', f', m) \<Longrightarrow> el_value e = el_value (elems s a)"
  by (auto simp: measureElement_def imageMetrics_def Let_def split: if_splits prod.splits)

lemma measureElement_arrays:
  "measureElement P opts iw r a s f = (e, s', f', m) \<Longrightarrow> arrays s' = arrays s \<and> fresh s' = fresh s"
  by (auto simp: measureElement_def imageMetrics_def Let_def split: if_splits prod.splits)

lemma measureElement_store_value:
  "measureElement P opts iw r a s f = (e, s', f', m) \<Longrightarrow> el_value (elems s' b) = el_value (elems s b)"
  by (auto simp: measureElement_def imageMetrics_def Let_def split: if_splits prod.splits)

lemma rowStep_Some:
  assumes "rows \<noteq> []"
  shows "\<exists>s' f' rows'. rowStep P opts iw i a (s, f, rows) = Some (s', f', rows')
           \<and> rows' \<noteq> [] \<and> rowCount rows' = Suc (rowCount rows)
           \<and> rowValues rows' = rowValues rows @ [el_value (elems s a)]
           \<and> arrays s' = arrays s \<and> (\<forall>b. el_value (elems s' b) = el_value (elems s b))"
proof -
  obtain e s1 f1 m where me: "measureElement P opts iw (last rows) a s f = (e, s1, f1, m)"
    by (cases "measureElement P opts iw (last rows) a s f") auto
  show ?thesis
    using assms me measureElement_value [OF me] measureElement_arrays [OF me]
      measureElement_store_value [OF me]
    by (simp add: rowStep_def Let_def placeElement_nonempty placeElement_count
        placeElement_values IElement.defs)
qed

lemma rowLoop_Some:
  assumes "rows \<noteq> []"
  shows "\<exists>s' f' rows'. rowLoop P opts iw i as (s, f, rows) = Some (s', f', rows')
           \<and> rows' \<noteq> [] \<and> rowCount rows' = rowCount rows + length as
           \<and> rowValues rows' = rowValues rows @ map (\<lambda>a. el_value (elems s a)) as
           \<and> arrays s' = arrays s"
  using assms
proof (induction as arbitrary: i s f rows)
  case Nil
  then show ?case by simp
next
  case (Cons a as)
  obtain s1 f1 rows1 where st: "rowStep P opts iw i a (s, f, rows) = Some (s1, f1, rows1)"
    and ne: "rows1 \<noteq> []" and cnt: "rowCount rows1 = Suc (rowCount rows)"
    and vals: "rowValues rows1 = rowValues rows @ [el_value (elems s a)]"
    and arr: "arrays s1 = arrays s" and keep: "\<forall>b. el_value (elems s1 b) = el_value (elems s b)"
    using rowStep_Some [OF Cons.prems, of P opts iw i a s f] by blast
  from Cons.IH [OF ne, of "Suc i" s1 f1] st cnt vals arr keep
  show ?case by auto
qed


lemma computeRowList_total: "\<exists>d'. computeRowList P d = Some d'"
proof (cases "arrays (store d) (elementList d) = []")
  case True
  then show ?thesis
    by (simp add: computeRowList_def Let_def initialRows_def)
next
  case False
  then have "initialRows (store d) (arrays (store d) (elementList d)) \<noteq> []"
    by (simp add: initialRows_def)
  from rowLoop_Some [OF this, of P "options d" "innerWidthOf P d" 0
      "arrays (store d) (elementList d)" "store d" "ctxFont d"]
  show ?thesis
    by (auto simp: computeRowList_def Let_def)
qed

text \<open>
  C6. The layout pass never throws; the rows together hold as many members as the
  element sequence has elements, and the members read row by row carry the values of
  the elements in sequence order, so every element lands in exactly one row. The row
  list is empty exactly when the sequence is.
\<close>

theorem computeRowList_complete:
  "\<exists>d'. computeRowList P d = Some d'
     \<and> rowCount (rowList d') = length (arrays (store d) (elementList d))
     \<and> rowValues (rowList d') = map el_value (readList (store d) (elementList d))
     \<and> arrays (store d') (elementList d') = arrays (store d) (elementList d)
     \<and> (arrays (store d) (elementList d) = [] \<longrightarrow> rowList d' = [])"
proof (cases "arrays (store d) (elementList d) = []")
  case True
  then show ?thesis
    by (simp add: computeRowList_def Let_def initialRows_def readList_def rowCount_def
        rowValues_def)
next
  case False
  let ?els = "arrays (store d) (elementList d)"
  have ne: "initialRows (store d) ?els \<noteq> []"
    using False by (simp add: initialRows_def)
  have zero: "rowCount (initialRows (store d) ?els) = 0"
    "rowValues (initialRows (store d) ?els) = []"
    using False by (simp_all add: initialRows_def rowCount_def rowValues_def)
  obtain s' f' rows' where
    loop: "rowLoop P (options d) (innerWidthOf P d) 0 ?els
             (store d, ctxFont d, initialRows (store d) ?els) = Some (s', f', rows')"
    and cnt: "rowCount rows' = rowCount (initialRows (store d) ?els) + length ?els"
    and vals: "rowValues rows' = rowValues (initialRows (store d) ?els)
                 @ map (\<lambda>a. el_value (elems (store d) a)) ?els"
    and arr: "arrays s' = arrays (store d)"
    using rowLoop_Some [OF ne, of P "options d" "innerWidthOf P d" 0 ?els "store d" "ctxFont d"]
    by blast
  show ?thesis
    using False loop cnt vals arr zero
    by (simp add: computeRowList_def Let_def readList_def)
qed

theorem computeRowList_complete_witness:
  "arrays (store (mkDraw 45 [])) (elementList (mkDraw 45 [])) = []
   \<and> (\<exists>d'. computeRowList demoPlatform (mkDraw 45 []) = Some d' \<and> rowList d' = []
          \<and> rowCount (rowList d') = 0)"
  using computeRowList_complete [of demoPlatform "mkDraw 45 []"]
  by (auto simp: mkDraw_def mkStore_def)

section \<open>Row break policy\<close>

lemma placeElement_break:
  assumes "num_gt (num_add (row_width (last rows)) (m_width (re_metrics re))) iw
             \<or> (i \<noteq> 0 \<and> el_value e = ZERO P)"
  shows "placeElement P iw i rows e re asc h =
           rows @ [\<lparr>row_width = m_width (re_metrics re), row_height = h, row_ascent = asc,
                    row_elementList = [re], row_rowFlex = el_rowFlex re\<rparr>]"
  using assms by (simp add: placeElement_def Let_def)

lemma placeElement_join:
  assumes "\<not> (num_gt (num_add (row_width (last rows)) (m_width (re_metrics re))) iw
             \<or> (i \<noteq> 0 \<and> el_value e = ZERO P))"
  shows "placeElement P iw i rows e re asc h =
           butlast rows @
             [if num_lt (row_height (last rows)) h
              then (last rows)\<lparr>row_width := num_add (row_width (last rows)) (m_width (re_metrics re)),
                     row_height := h,
                     row_ascent := (if el_type e = Some IMAGE then toNumber (el_height e) else asc),
                     row_elementList := row_elementList (last rows) @ [re]\<rparr>
              else (last rows)\<lparr>row_width := num_add (row_width (last rows)) (m_width (re_metrics re)),
                     row_elementList := row_elementList (last rows) @ [re]\<rparr>]"
  using assms by (auto simp: placeElement_def Let_def)

lemma rowStep_decides:
  assumes ne: "rows \<noteq> []"
  shows "\<exists>element s1 f1 metrics rows'.
          measureElement P opts iw (last rows) a s f = (element, s1, f1, metrics)
        \<and> rowStep P opts iw i a (s, f, rows) = Some (s1, f1, rows')
        \<and> (if breaksRow P iw i (last rows) (el_value (elems s a)) (m_width metrics)
            then length rows' = Suc (length rows) \<and> butlast rows' = rows
                 \<and> rowSummary (last rows') = ([el_value (elems s a)], m_width metrics)
            else length rows' = length rows \<and> butlast rows' = butlast rows
                 \<and> rowSummary (last rows') =
                     (fst (rowSummary (last rows)) @ [el_value (elems s a)],
                      num_add (row_width (last rows)) (m_width metrics)))"
proof -
  obtain e s1 f1 m where me: "measureElement P opts iw (last rows) a s f = (e, s1, f1, m)"
    by (cases "measureElement P opts iw (last rows) a s f") auto
  have val: "el_value e = el_value (elems s a)"
    using measureElement_value [OF me] .
  let ?re = "IElement.extend e \<lparr>re_metrics = m, re_style = f1\<rparr>"
  have re: "re_metrics ?re = m" "el_value ?re = el_value e"
    by (simp_all add: IElement.defs)
  let ?rm = "num_mul (defaultBasicRowMarginHeight opts)
               (orNumber (el_rowMargin (elems s a)) (defaultRowMargin opts))"
  let ?asc = "num_add (m_boundingBoxAscent m) ?rm"
  let ?h = "num_add ?asc (num_add (m_boundingBoxDescent m) ?rm)"
  have step: "rowStep P opts iw i a (s, f, rows) =
                Some (s1, f1, placeElement P iw i rows e ?re ?asc ?h)"
    using ne me by (simp add: rowStep_def Let_def)
  show ?thesis
  proof (cases "breaksRow P iw i (last rows) (el_value (elems s a)) (m_width m)")
    case True
    then have c: "num_gt (num_add (row_width (last rows)) (m_width (re_metrics ?re))) iw
             \<or> (i \<noteq> 0 \<and> el_value e = ZERO P)"
      using val re by (simp add: breaksRow_def)
    show ?thesis
      using me step True placeElement_break [OF c, of ?asc ?h] val re
      by (simp add: rowSummary_def)
  next
    case False
    then have c: "\<not> (num_gt (num_add (row_width (last rows)) (m_width (re_metrics ?re))) iw
             \<or> (i \<noteq> 0 \<and> el_value e = ZERO P))"
      using val re by (simp add: breaksRow_def)
    show ?thesis
      using me step False val re ne placeElement_join [OF c, of ?asc ?h]
      by (simp add: rowSummary_def)
  qed
qed

text \<open>
  The loop hands each element its position in the sequence as the index: the element
  after a prefix of length \<open>n\<close>, in a loop started at \<open>i\<close>, is processed with \<open>i + n\<close>.
\<close>

lemma rowLoop_snoc:
  "rowLoop P opts iw i (as @ [a]) st =
     (case rowLoop P opts iw i as st of
        None \<Rightarrow> None
      | Some st' \<Rightarrow> rowStep P opts iw (i + length as) a st')"
  by (induction as arbitrary: i st) (auto split: option.splits)

lemma layoutAfter_Suc:
  assumes "k < length (arrays (store d) (elementList d))"
  shows "layoutAfter P d (Suc k) =
     (case layoutAfter P d k of
        None \<Rightarrow> None
      | Some st \<Rightarrow>
          rowStep P (options d) (innerWidthOf P d) k (arrays (store d) (elementList d) ! k) st)"
proof -
  have len: "length (take k (arrays (store d) (elementList d))) = k"
    using assms by simp
  show ?thesis
    using assms
    by (simp add: layoutAfter_def Let_def take_Suc_conv_app_nth rowLoop_snoc len
        split: option.splits)
qed

lemma layoutAfter_Some:
  assumes "arrays (store d) (elementList d) \<noteq> []"
  shows "\<exists>s f rows. layoutAfter P d k = Some (s, f, rows) \<and> rows \<noteq> []"
proof -
  have "initialRows (store d) (arrays (store d) (elementList d)) \<noteq> []"
    using assms by (simp add: initialRows_def)
  from rowLoop_Some [OF this, of P "options d" "innerWidthOf P d" 0
      "take k (arrays (store d) (elementList d))" "store d" "ctxFont d"]
  show ?thesis
    by (auto simp: layoutAfter_def Let_def)
qed

lemma layoutAfter_step:
  assumes k: "k < length (arrays (store d) (elementList d))"
  shows "\<exists>st. layoutAfter P d k = Some st \<and> snd (snd st) \<noteq> []
           \<and> layoutAfter P d (Suc k)
               = rowStep P (options d) (innerWidthOf P d) k
                   (arrays (store d) (elementList d) ! k) st"
proof -
  have "arrays (store d) (elementList d) \<noteq> []"
    using k by auto
  then obtain s f rows where before: "layoutAfter P d k = Some (s, f, rows)" and "rows \<noteq> []"
    using layoutAfter_Some [of d P k] by blast
  then show ?thesis
    using layoutAfter_Suc [OF k, of P] by simp
qed

lemma computeRowList_layoutAfter:
  "computeRowList P d =
     (case layoutAfter P d (length (arrays (store d) (elementList d))) of
        None \<Rightarrow> None
      | Some (s, f, rows) \<Rightarrow> Some (d\<lparr>store := s, rowList := rows\<rparr>))"
  by (simp add: computeRowList_def layoutAfter_def Let_def)

text \<open>
  C4. An iteration of the layout loop, in whatever state, opens a new row exactly when
  the current row's width plus the element's measured width (for an image, the width
  after the shrink) exceeds the inner width, or the element is the line-break marker
  and the index of the iteration is not 0; otherwise the element joins the current
  row. The pass runs this iteration on the element at position \<open>k\<close> of the sequence
  with the index \<open>k\<close>, on the state the first \<open>k\<close> elements left, and the rows of
  \<open>_computeRowList\<close> are those after the last element. Three glyphs of width 10 with
  an inner width of 25 give the rows [A, B] of width 20 and [C] of width 10; of two
  markers, each followed by a glyph, the first opens no row and the second does.
\<close>

theorem computeRowList_row_break:
  "(rows \<noteq> [] \<longrightarrow>
      (\<exists>element s1 f1 metrics rows'.
          measureElement P opts iw (last rows) a s f = (element, s1, f1, metrics)
        \<and> rowStep P opts iw i a (s, f, rows) = Some (s1, f1, rows')
        \<and> (if breaksRow P iw i (last rows) (el_value (elems s a)) (m_width metrics)
            then length rows' = Suc (length rows) \<and> butlast rows' = rows
                 \<and> rowSummary (last rows') = ([el_value (elems s a)], m_width metrics)
            else length rows' = length rows \<and> butlast rows' = butlast rows
                 \<and> rowSummary (last rows') =
                     (fst (rowSummary (last rows)) @ [el_value (elems s a)],
                      num_add (row_width (last rows)) (m_width metrics)))))
   \<and> (k < length (arrays (store d) (elementList d)) \<longrightarrow>
        (\<exists>st. layoutAfter P d k = Some st \<and> snd (snd st) \<noteq> []
           \<and> layoutAfter P d (Suc k)
               = rowStep P (options d) (innerWidthOf P d) k
                   (arrays (store d) (elementList d) ! k) st))
   \<and> map_option rowList (computeRowList P d)
       = map_option (\<lambda>st. snd (snd st))
           (layoutAfter P d (length (arrays (store d) (elementList d))))
   \<and> map_option (\<lambda>d. map rowSummary (rowList d))
        (computeRowList demoPlatform (mkDraw 45 [textEl ''A'', textEl ''B'', textEl ''C'']))
      = Some [([''A'', ''B''], Num 20), ([''C''], Num 10)]
   \<and> map_option (\<lambda>d. map rowSummary (rowList d)) (computeRowList demoPlatform breakDraw)
      = Some [([zwsp, ''A''], Num 10), ([zwsp, ''B''], Num 10)]"
proof (intro conjI impI)
  assume "rows \<noteq> []"
  then show "\<exists>element s1 f1 metrics rows'.
          measureElement P opts iw (last rows) a s f = (element, s1, f1, metrics)
        \<and> rowStep P opts iw i a (s, f, rows) = Some (s1, f1, rows')
        \<and> (if breaksRow P iw i (last rows) (el_value (elems s a)) (m_width metrics)
            then length rows' = Suc (length rows) \<and> butlast rows' = rows
                 \<and> rowSummary (last rows') = ([el_value (elems s a)], m_width metrics)
            else length rows' = length rows \<and> butlast rows' = butlast rows
                 \<and> rowSummary (last rows') =
                     (fst (rowSummary (last rows)) @ [el_value (elems s a)],
                      num_add (row_width (last rows)) (m_width metrics)))"
    by (rule rowStep_decides)
next
  assume k: "k < length (arrays (store d) (elementList d))"
  show "\<exists>st. layoutAfter P d k = Some st \<and> snd (snd st) \<noteq> []
           \<and> layoutAfter P d (Suc k)
               = rowStep P (options d) (innerWidthOf P d) k
                   (arrays (store d) (elementList d) ! k) st"
    by (rule layoutAfter_step [OF k])
next
  show "map_option rowList (computeRowList P d)
       = map_option (\<lambda>st. snd (snd st))
           (layoutAfter P d (length (arrays (store d) (elementList d))))"
    by (simp add: computeRowList_layoutAfter split: option.splits)
next
  show "map_option (\<lambda>d. map rowSummary (rowList d))
        (computeRowList demoPlatform (mkDraw 45 [textEl ''A'', textEl ''B'', textEl ''C'']))
      = Some [([''A'', ''B''], Num 20), ([''C''], Num 10)]"
    by (simp add: model_defs demo_defs rowSummary_def upt_rec)
next
  show "map_option (\<lambda>d. map rowSummary (rowList d)) (computeRowList demoPlatform breakDraw)
      = Some [([zwsp, ''A''], Num 10), ([zwsp, ''B''], Num 10)]"
    by (simp add: model_defs demo_defs breakDraw_def rowSummary_def upt_rec)
qed

theorem computeRowList_row_break_witness:
  "2 < length (arrays (store breakDraw) (elementList breakDraw))
   \<and> layoutAfter demoPlatform breakDraw 3 \<noteq> None
   \<and> map_option (\<lambda>st. map rowSummary (snd (snd st))) (layoutAfter demoPlatform breakDraw 1)
       = Some [([zwsp], Num 0)]
   \<and> map_option (\<lambda>st. map rowSummary (snd (snd st))) (layoutAfter demoPlatform breakDraw 2)
       = Some [([zwsp, ''A''], Num 10)]
   \<and> map_option (\<lambda>st. map rowSummary (snd (snd st))) (layoutAfter demoPlatform breakDraw 3)
       = Some [([zwsp, ''A''], Num 10), ([zwsp], Num 0)]"
proof (intro conjI)
  show k: "2 < length (arrays (store breakDraw) (elementList breakDraw))"
    by (simp add: breakDraw_def demo_defs)
  obtain st where ne: "snd (snd st) \<noteq> []"
    and after: "layoutAfter demoPlatform breakDraw (Suc 2)
        = rowStep demoPlatform (options breakDraw) (innerWidthOf demoPlatform breakDraw) 2
            (arrays (store breakDraw) (elementList breakDraw) ! 2) st"
    using computeRowList_row_break [where P = demoPlatform and d = breakDraw and k = 2,
        THEN conjunct2, THEN conjunct1] k
    by blast
  obtain s f rows where st: "st = (s, f, rows)"
    by (cases st) auto
  have "rows \<noteq> []"
    using ne st by simp
  then obtain s1 f1 rows' where
    "rowStep demoPlatform (options breakDraw) (innerWidthOf demoPlatform breakDraw) 2
       (arrays (store breakDraw) (elementList breakDraw) ! 2) (s, f, rows) = Some (s1, f1, rows')"
    using computeRowList_row_break
      [where rows = rows and P = demoPlatform and opts = "options breakDraw"
         and iw = "innerWidthOf demoPlatform breakDraw"
         and a = "arrays (store breakDraw) (elementList breakDraw) ! 2"
         and s = s and f = f and i = 2,
       THEN conjunct1]
    by blast
  then show "layoutAfter demoPlatform breakDraw 3 \<noteq> None"
    using after st by (simp add: numeral_3_eq_3)
  show "map_option (\<lambda>st. map rowSummary (snd (snd st))) (layoutAfter demoPlatform breakDraw 1)
       = Some [([zwsp], Num 0)]"
    by (simp add: layoutAfter_def model_defs demo_defs breakDraw_def rowSummary_def upt_rec)
  show "map_option (\<lambda>st. map rowSummary (snd (snd st))) (layoutAfter demoPlatform breakDraw 2)
       = Some [([zwsp, ''A''], Num 10)]"
    by (simp add: layoutAfter_def model_defs demo_defs breakDraw_def rowSummary_def upt_rec)
  show "map_option (\<lambda>st. map rowSummary (snd (snd st))) (layoutAfter demoPlatform breakDraw 3)
       = Some [([zwsp, ''A''], Num 10), ([zwsp], Num 0)]"
    by (simp add: layoutAfter_def model_defs demo_defs breakDraw_def rowSummary_def upt_rec)
qed

section \<open>Width containment and row-flex\<close>

lemma isNum_add [simp]: "isNum (num_add a b) = (isNum a \<and> isNum b)"
  by (cases a; cases b) simp_all

lemma isNum_sub [simp]: "isNum (num_sub a b) = (isNum a \<and> isNum b)"
  by (cases a; cases b) simp_all

lemma num_le_or_gt: "isNum a \<Longrightarrow> isNum b \<Longrightarrow> num_le a b \<or> num_gt a b"
  by (cases a; cases b) (auto simp: num_gt_def)

lemma measureElement_width_num:
  assumes "measureElement P opts iw r a s f = (e, s', f', m)"
    and "isNum iw" and "isNum (row_width r)"
    and "\<forall>fnt v. isNum (tm_width (measureText P fnt v))"
    and "el_type (elems s a) = Some IMAGE \<longrightarrow> isNum (toNumber (el_width (elems s a)))"
  shows "isNum (m_width m)"
  using assms
  by (auto simp: measureElement_def imageMetrics_def textMetrics_def Let_def
      split: if_splits prod.splits)

lemma measureElement_type:
  assumes "measureElement P opts iw r a s f = (e, s', f', m)"
  shows "el_type (elems s' b) = el_type (elems s b)"
  using assms
  by (auto simp: measureElement_def imageMetrics_def Let_def split: if_splits prod.splits)

lemma measureElement_keeps_num:
  assumes "measureElement P opts iw r a s f = (e, s', f', m)"
    and "isNum iw" and "isNum (row_width r)"
    and "isNum (toNumber (el_width (elems s b)))"
  shows "isNum (toNumber (el_width (elems s' b)))"
  using assms
  by (auto simp: measureElement_def imageMetrics_def Let_def split: if_splits prod.splits)

lemma placeElement_contained:
  assumes inv: "containedInv iw rows" and iw: "isNum iw"
    and mw: "isNum (m_width (re_metrics re))"
  shows "containedInv iw (placeElement P iw i rows e re asc h)"
proof -
  from inv obtain ys y where rows: "rows = ys @ [y]"
    by (cases rows rule: rev_cases) (auto simp: containedInv_def)
  have ynum: "isNum (row_width y)"
    using inv rows by (simp add: containedInv_def)
  show ?thesis
  proof (cases "num_gt (num_add (row_width (last rows)) (m_width (re_metrics re))) iw
             \<or> (i \<noteq> 0 \<and> el_value e = ZERO P)")
    case True
    let ?new = "\<lparr>row_width = m_width (re_metrics re), row_height = h, row_ascent = asc,
                  row_elementList = [re], row_rowFlex = el_rowFlex re\<rparr>"
    have new: "num_le (row_width ?new) iw \<or> oversizeAlone iw ?new"
      using num_le_or_gt [OF mw iw] by (auto simp: oversizeAlone_def)
    have "placeElement P iw i rows e re asc h = rows @ [?new]"
      using placeElement_break [OF True] .
    moreover have "containedInv iw (rows @ [?new])"
      using inv new mw rows by (cases ys) (auto simp: containedInv_def)
    ultimately show ?thesis by simp
  next
    case False
    let ?w = "num_add (row_width y) (m_width (re_metrics re))"
    have le: "num_le ?w iw"
      using False rows num_le_or_gt [of ?w iw] ynum mw iw by auto
    obtain r where pe: "placeElement P iw i rows e re asc h = ys @ [r]"
      and w: "row_width r = ?w"
      using placeElement_join [OF False, of asc h] rows by (auto split: if_splits)
    have "containedInv iw (ys @ [r])"
      using inv le w ynum mw rows by (cases ys) (auto simp: containedInv_def)
    then show ?thesis using pe by simp
  qed
qed

lemma rowStep_contained:
  assumes inv: "containedInv iw rows" and iw: "isNum iw"
    and tm: "\<forall>fnt v. isNum (tm_width (measureText P fnt v))"
    and img: "\<forall>b \<in> set (a # as). el_type (elems s b) = Some IMAGE
                \<longrightarrow> isNum (toNumber (el_width (elems s b)))"
  shows "\<exists>s' f' rows'. rowStep P opts iw i a (s, f, rows) = Some (s', f', rows')
           \<and> containedInv iw rows'
           \<and> (\<forall>b \<in> set as. el_type (elems s' b) = Some IMAGE
                \<longrightarrow> isNum (toNumber (el_width (elems s' b))))"
proof -
  have ne: "rows \<noteq> []" and lastnum: "isNum (row_width (last rows))"
    using inv by (auto simp: containedInv_def)
  obtain e s1 f1 m where me: "measureElement P opts iw (last rows) a s f = (e, s1, f1, m)"
    by (cases "measureElement P opts iw (last rows) a s f") auto
  have mw: "isNum (m_width m)"
    using measureElement_width_num [OF me iw lastnum tm] img by simp
  have keep: "\<forall>b \<in> set as. el_type (elems s1 b) = Some IMAGE
                \<longrightarrow> isNum (toNumber (el_width (elems s1 b)))"
    using img measureElement_type [OF me] measureElement_keeps_num [OF me iw lastnum]
    by auto
  let ?re = "IElement.extend e \<lparr>re_metrics = m, re_style = f1\<rparr>"
  have re: "isNum (m_width (re_metrics ?re))"
    using mw by (simp add: IElement.defs)
  show ?thesis
    using ne me keep placeElement_contained [OF inv iw re]
    by (simp add: rowStep_def Let_def)
qed

lemma rowLoop_contained:
  assumes "containedInv iw rows" and "isNum iw"
    and "\<forall>fnt v. isNum (tm_width (measureText P fnt v))"
    and "\<forall>b \<in> set as. el_type (elems s b) = Some IMAGE
                \<longrightarrow> isNum (toNumber (el_width (elems s b)))"
  shows "\<exists>s' f' rows'. rowLoop P opts iw i as (s, f, rows) = Some (s', f', rows')
           \<and> containedInv iw rows'"
  using assms
proof (induction as arbitrary: i s f rows)
  case Nil
  then show ?case by simp
next
  case (Cons a as)
  obtain s1 f1 rows1 where st: "rowStep P opts iw i a (s, f, rows) = Some (s1, f1, rows1)"
    and inv1: "containedInv iw rows1"
    and img1: "\<forall>b \<in> set as. el_type (elems s1 b) = Some IMAGE
                \<longrightarrow> isNum (toNumber (el_width (elems s1 b)))"
    using rowStep_contained [OF Cons.prems(1) Cons.prems(2) Cons.prems(3) Cons.prems(4)]
    by blast
  from Cons.IH [OF inv1 Cons.prems(2) Cons.prems(3) img1, of "Suc i" f1] st
  show ?case by simp
qed

lemma containedInv_rowsContained:
  assumes "containedInv iw rows" and "isNum iw"
  shows "rowsContained iw rows"
proof -
  have "rowContained iw k (rows ! k)" if "k < length rows" for k
  proof (cases k)
    case 0
    have z: "num_le (Num 0) iw \<or> num_lt iw (Num 0)"
      using assms(2) by (cases iw) auto
    show ?thesis
      using assms(1) 0 z by (cases rows) (auto simp: containedInv_def rowContained_def)
  next
    case (Suc j)
    then have "rows ! k \<in> set (tl rows)"
      using that by (cases rows) auto
    then show ?thesis
      using assms(1) by (auto simp: containedInv_def rowContained_def)
  qed
  then show ?thesis
    by (simp add: rowsContained_def list_all_iff)
qed

text \<open>
  C5 (amended). When the inner width, the measured glyph widths and the widths of the
  images are numbers, every row of the layout is contained: its width is at most the
  inner width, unless it holds a single member that alone exceeds the inner width
  (placed, not dropped), or it is the empty first row under a negative inner width.
  Rows opened by a line-break marker need no exception of their own.
\<close>

theorem computeRowList_width_contained:
  assumes "isNum (innerWidthOf P d)"
    and "\<forall>fnt v. isNum (tm_width (measureText P fnt v))"
    and "\<forall>a \<in> set (arrays (store d) (elementList d)).
           el_type (elems (store d) a) = Some IMAGE
             \<longrightarrow> isNum (toNumber (el_width (elems (store d) a)))"
  shows "\<exists>d'. computeRowList P d = Some d' \<and> rowsContained (innerWidthOf P d) (rowList d')"
proof (cases "arrays (store d) (elementList d) = []")
  case True
  then show ?thesis
    by (simp add: computeRowList_def Let_def initialRows_def rowsContained_def)
next
  case False
  let ?els = "arrays (store d) (elementList d)"
  have inv0: "containedInv (innerWidthOf P d) (initialRows (store d) ?els)"
    using False by (simp add: initialRows_def containedInv_def)
  obtain s' f' rows' where
    "rowLoop P (options d) (innerWidthOf P d) 0 ?els
       (store d, ctxFont d, initialRows (store d) ?els) = Some (s', f', rows')"
    and "containedInv (innerWidthOf P d) rows'"
    using rowLoop_contained [OF inv0 assms(1) assms(2) assms(3)] by blast
  then show ?thesis
    using containedInv_rowsContained [OF _ assms(1)]
    by (simp add: computeRowList_def Let_def)
qed

text \<open>
  With a canvas narrower than its side margins the inner width is negative: the first
  row stays empty with width 0, above the inner width, although no line-break marker
  forced it and no member is in it.
\<close>

theorem width_containment_counterexample:
  "computeRowList demoPlatform narrowDraw \<noteq> None
   \<and> innerWidthOf demoPlatform narrowDraw = Num (- 10)
   \<and> map rowSummary (rowList (the (computeRowList demoPlatform narrowDraw)))
       = [([], Num 0), ([''A''], Num 10)]
   \<and> \<not> num_le (row_width (hd (rowList (the (computeRowList demoPlatform narrowDraw)))))
          (innerWidthOf demoPlatform narrowDraw)"
  by (simp add: model_defs demo_defs narrowDraw_def rowSummary_def)

theorem computeRowList_width_contained_witness:
  "isNum (innerWidthOf demoPlatform imageDraw)
   \<and> (\<exists>d'. computeRowList demoPlatform imageDraw = Some d'
          \<and> rowsContained (innerWidthOf demoPlatform imageDraw) (rowList d')
          \<and> map rowSummary (rowList d') = [([''A'', ''B'', []], Num 25)])"
  using computeRowList_width_contained [of demoPlatform imageDraw]
  by (simp add: model_defs demo_defs imageDraw_def rowSummary_def upt_rec)

lemma placeElement_flex:
  assumes inv: "flexInv f0 rows"
  shows "flexInv f0 (placeElement P iw i rows e re asc h)"
proof -
  from inv obtain ys y where rows: "rows = ys @ [y]"
    by (cases rows rule: rev_cases) (auto simp: flexInv_def)
  show ?thesis
  proof (cases "num_gt (num_add (row_width (last rows)) (m_width (re_metrics re))) iw
             \<or> (i \<noteq> 0 \<and> el_value e = ZERO P)")
    case True
    show ?thesis
      using inv rows placeElement_break [OF True, of asc h]
      by (cases ys) (auto simp: flexInv_def)
  next
    case False
    obtain r where pe: "placeElement P iw i rows e re asc h = ys @ [r]"
      and fl: "row_rowFlex r = row_rowFlex y"
      and el: "row_elementList r = row_elementList y @ [re]"
      using placeElement_join [OF False, of asc h] rows by (auto split: if_splits)
    have "flexInv f0 (ys @ [r])"
      using inv rows fl el by (cases ys) (auto simp: flexInv_def)
    then show ?thesis using pe by simp
  qed
qed

lemma measureElement_rowFlex:
  assumes "measureElement P opts iw r a s f = (e, s', f', m)"
  shows "el_rowFlex (elems s' b) = el_rowFlex (elems s b)"
  using assms
  by (auto simp: measureElement_def imageMetrics_def Let_def split: if_splits prod.splits)

lemma rowStep_flex:
  assumes inv: "flexInv f0 rows"
  shows "\<exists>s' f' rows'. rowStep P opts iw i a (s, f, rows) = Some (s', f', rows')
           \<and> flexInv f0 rows'"
proof -
  have ne: "rows \<noteq> []"
    using inv by (simp add: flexInv_def)
  obtain e s1 f1 m where me: "measureElement P opts iw (last rows) a s f = (e, s1, f1, m)"
    by (cases "measureElement P opts iw (last rows) a s f") auto
  show ?thesis
    using ne me placeElement_flex [OF inv]
    by (simp add: rowStep_def Let_def)
qed

lemma rowLoop_flex:
  assumes "flexInv f0 rows"
  shows "\<exists>s' f' rows'. rowLoop P opts iw i as (s, f, rows) = Some (s', f', rows')
           \<and> flexInv f0 rows'"
  using assms
proof (induction as arbitrary: i s f rows)
  case Nil
  then show ?case by simp
next
  case (Cons a as)
  obtain s1 f1 rows1 where st: "rowStep P opts iw i a (s, f, rows) = Some (s1, f1, rows1)"
    and inv1: "flexInv f0 rows1"
    using rowStep_flex [OF Cons.prems] by blast
  from Cons.IH [OF inv1, of "Suc i" s1 f1] st
  show ?case by simp
qed

text \<open>
  C8 (amended). Only the first row reads its row-flex from \<open>elementList[1]\<close>, when it
  is created before the loop (\<open>undefined\<close> for a sequence of one element). Every later
  row has at least one member and takes the row-flex of its own first member.
\<close>

theorem computeRowList_rowFlex:
  "\<exists>d'. computeRowList P d = Some d'
     \<and> (arrays (store d) (elementList d) \<noteq> [] \<longrightarrow>
          rowList d' \<noteq> []
          \<and> row_rowFlex (hd (rowList d')) =
              (if 1 < length (arrays (store d) (elementList d))
               then el_rowFlex (elems (store d) (arrays (store d) (elementList d) ! 1))
               else None))
     \<and> (\<forall>r \<in> set (tl (rowList d')).
           row_elementList r \<noteq> [] \<and> row_rowFlex r = el_rowFlex (hd (row_elementList r)))"
proof (cases "arrays (store d) (elementList d) = []")
  case True
  then show ?thesis
    by (simp add: computeRowList_def Let_def initialRows_def)
next
  case False
  let ?els = "arrays (store d) (elementList d)"
  let ?f0 = "if 1 < length ?els then el_rowFlex (elems (store d) (?els ! 1)) else None"
  have inv0: "flexInv ?f0 (initialRows (store d) ?els)"
    using False by (simp add: initialRows_def flexInv_def)
  obtain s' f' rows' where
    "rowLoop P (options d) (innerWidthOf P d) 0 ?els
       (store d, ctxFont d, initialRows (store d) ?els) = Some (s', f', rows')"
    and "flexInv ?f0 rows'"
    using rowLoop_flex [OF inv0] by blast
  then show ?thesis
    using False by (simp add: computeRowList_def Let_def flexInv_def)
qed

theorem computeRowList_rowFlex_witness:
  "arrays (store flexDraw) (elementList flexDraw) \<noteq> []
   \<and> (\<exists>d'. computeRowList demoPlatform flexDraw = Some d'
          \<and> map rowSummary (rowList d') = [([''A'', ''B''], Num 20), ([''C''], Num 10)]
          \<and> map row_rowFlex (rowList d') = [Some LEFT, Some RIGHT])"
  using computeRowList_rowFlex [of demoPlatform flexDraw]
  by (simp add: model_defs demo_defs flexDraw_def flexEl_def rowSummary_def upt_rec)

text \<open>
  The second row of the sample has the alignment of its own first member \<open>C\<close>, not
  that of \<open>elementList[1]\<close>.
\<close>

theorem rowFlex_counterexample:
  "computeRowList demoPlatform flexDraw \<noteq> None
   \<and> row_rowFlex (rowList (the (computeRowList demoPlatform flexDraw)) ! 1) = Some RIGHT
   \<and> el_rowFlex (hd (row_elementList (rowList (the (computeRowList demoPlatform flexDraw)) ! 1)))
       = Some RIGHT
   \<and> el_rowFlex (elems (store flexDraw) (arrays (store flexDraw) (elementList flexDraw) ! 1))
       = Some LEFT"
  by (simp add: model_defs demo_defs flexDraw_def flexEl_def upt_rec)

section \<open>Image overflow\<close>

lemma rowStep_measure:
  assumes "rows \<noteq> []" and "measureElement P opts iw (last rows) a s f = (e, s1, f1, m)"
  shows "rowStep P opts iw i a (s, f, rows) =
           Some (s1, f1,
             placeElement P iw i rows e (IElement.extend e \<lparr>re_metrics = m, re_style = f1\<rparr>)
               (num_add (m_boundingBoxAscent m)
                  (num_mul (defaultBasicRowMarginHeight opts)
                     (orNumber (el_rowMargin (elems s a)) (defaultRowMargin opts))))
               (num_add
                  (num_add (m_boundingBoxAscent m)
                     (num_mul (defaultBasicRowMarginHeight opts)
                        (orNumber (el_rowMargin (elems s a)) (defaultRowMargin opts))))
                  (num_add (m_boundingBoxDescent m)
                     (num_mul (defaultBasicRowMarginHeight opts)
                        (orNumber (el_rowMargin (elems s a)) (defaultRowMargin opts))))))"
  using assms by (simp add: rowStep_def Let_def)

lemma measureElement_shrink:
  assumes "el_type (elems s a) = Some IMAGE"
    and "num_gt (num_add (row_width r) (toNumber (el_width (elems s a)))) iw"
  shows "measureElement P opts iw r a s f =
           ((elems s a)\<lparr>el_width := Some (num_sub iw (row_width r)),
               el_height := Some (num_div (num_mul (toNumber (el_height (elems s a)))
                                              (num_sub iw (row_width r)))
                                    (num_sub iw (row_width r)))\<rparr>,
            s\<lparr>elems := (elems s)
                 (a := (elems s a)\<lparr>el_width := Some (num_sub iw (row_width r)),
                    el_height := Some (num_div (num_mul (toNumber (el_height (elems s a)))
                                                   (num_sub iw (row_width r)))
                                         (num_sub iw (row_width r)))\<rparr>)\<rparr>,
            f,
            \<lparr>m_width = num_sub iw (row_width r),
             m_height = toNumber (el_height (elems s a)),
             m_boundingBoxAscent = Num 0,
             m_boundingBoxDescent =
               num_div (num_mul (toNumber (el_height (elems s a))) (num_sub iw (row_width r)))
                 (num_sub iw (row_width r))\<rparr>)"
  using assms by (simp add: measureElement_def imageMetrics_def Let_def)

lemma rescale_zero: "num_div (num_mul h (Num 0)) (Num 0) = NaN"
  by (cases h) simp_all


lemma representable_of_int:
  assumes "\<bar>n\<bar> < 2 ^ 53"
  shows "representable (of_int n)"
  unfolding representable_def
  using assms by (intro exI [of _ n] exI [of _ 1074]) simp




lemma rowStep_image_full:
  assumes ne: "rows \<noteq> []" and img: "el_type (elems s a) = Some IMAGE" and iw: "isNum iw"
    and full: "row_width (last rows) = iw" and w: "el_width (elems s a) = Some (Num w)"
    and pos: "0 < w"
  shows "\<exists>s1 f1 rows'.
         rowStep P opts iw i a (s, f, rows) = Some (s1, f1, rows')
       \<and> el_width (elems s1 a) = Some (Num 0)
       \<and> el_height (elems s1 a) = Some NaN
       \<and> el_height (last (row_elementList (last rows'))) = Some NaN
       \<and> m_width (re_metrics (last (row_elementList (last rows')))) = Num 0
       \<and> m_boundingBoxDescent (re_metrics (last (row_elementList (last rows')))) = NaN
       \<and> m_height (re_metrics (last (row_elementList (last rows'))))
           = toNumber (el_height (elems s a))
       \<and> (if i \<noteq> 0 \<and> el_value (elems s a) = ZERO P
           then butlast rows' = rows \<and> row_height (last rows') = NaN
           else butlast rows' = butlast rows
                \<and> row_width (last rows') = iw
                \<and> row_height (last rows') = row_height (last rows)
                \<and> row_ascent (last rows') = row_ascent (last rows))"
proof -
  obtain x where x: "iw = Num x"
    using iw by (cases iw) auto
  have over: "num_gt (num_add (row_width (last rows)) (toNumber (el_width (elems s a)))) iw"
    using full w pos x by (simp add: num_gt_def)
  have surplus: "num_sub iw (row_width (last rows)) = Num 0"
    using full x by simp
  note me = measureElement_shrink [OF img over, of P opts f, unfolded surplus rescale_zero]
  let ?e = "(elems s a)\<lparr>el_width := Some (Num 0), el_height := Some NaN\<rparr>"
  let ?m = "\<lparr>m_width = Num 0, m_height = toNumber (el_height (elems s a)),
             m_boundingBoxAscent = Num 0, m_boundingBoxDescent = NaN\<rparr>"
  let ?re = "IElement.extend ?e \<lparr>re_metrics = ?m, re_style = f\<rparr>"
  have re: "re_metrics ?re = ?m" "el_value ?re = el_value (elems s a)" "el_height ?re = Some NaN"
    by (simp_all add: IElement.defs)
  note step = rowStep_measure [OF ne me, of i]
  show ?thesis
  proof (cases "i \<noteq> 0 \<and> el_value (elems s a) = ZERO P")
    case True
    then have c: "num_gt (num_add (row_width (last rows)) (m_width (re_metrics ?re))) iw
             \<or> (i \<noteq> 0 \<and> el_value ?e = ZERO P)"
      by simp
    show ?thesis
      unfolding if_P [OF True]
      using re by (simp add: step placeElement_break [OF c])
  next
    case False
    then have c: "\<not> (num_gt (num_add (row_width (last rows)) (m_width (re_metrics ?re))) iw
             \<or> (i \<noteq> 0 \<and> el_value ?e = ZERO P))"
      using full x by (simp add: num_gt_def IElement.defs)
    have nolt: "\<not> num_lt (row_height (last rows)) NaN"
      by (cases "row_height (last rows)") simp_all
    have add0: "num_add iw (Num 0) = iw"
      using x by simp
    show ?thesis
      unfolding if_not_P [OF False]
      using re full add0 nolt by (simp add: step placeElement_join [OF c])
  qed
qed


text \<open>
  C10 (amended). When an image meets a current row whose width already equals the inner
  width, and its width is positive and not absorbed by the addition (the sum of row
  width and image width is exactly representable), the iteration of the layout loop
  sets the image's width to 0 and its height to \<open>height * 0 / 0\<close>, which is \<open>NaN\<close>.
  The \<open>NaN\<close> reaches the element's height and, in the metrics of the row member,
  \<open>boundingBoxDescent\<close> (\<open>metrics.height\<close> was read before and keeps the old height). It
  reaches the row's height only when the image is a line-break marker at an index other
  than 0 and so opens a new row; otherwise the comparison \<open>curRow.height < NaN\<close> is
  false and the row keeps its height and ascent. The pass runs this iteration on the
  element at position \<open>k\<close> with the index \<open>k\<close>.
\<close>

theorem rowStep_image_nan:
  "(rows \<noteq> [] \<longrightarrow> el_type (elems s a) = Some IMAGE \<longrightarrow>
    iw = Num x \<longrightarrow> row_width (last rows) = Num x \<longrightarrow>
    el_width (elems s a) = Some (Num w) \<longrightarrow> 0 < w \<longrightarrow> representable (x + w) \<longrightarrow>
     (\<exists>s1 f1 rows'.
         rowStep P opts iw i a (s, f, rows) = Some (s1, f1, rows')
       \<and> el_width (elems s1 a) = Some (Num 0)
       \<and> el_height (elems s1 a) = Some NaN
       \<and> el_height (last (row_elementList (last rows'))) = Some NaN
       \<and> m_width (re_metrics (last (row_elementList (last rows')))) = Num 0
       \<and> m_boundingBoxDescent (re_metrics (last (row_elementList (last rows')))) = NaN
       \<and> m_height (re_metrics (last (row_elementList (last rows'))))
           = toNumber (el_height (elems s a))
       \<and> (if i \<noteq> 0 \<and> el_value (elems s a) = ZERO P
           then butlast rows' = rows \<and> row_height (last rows') = NaN
           else butlast rows' = butlast rows
                \<and> row_width (last rows') = Num x
                \<and> row_height (last rows') = row_height (last rows)
                \<and> row_ascent (last rows') = row_ascent (last rows))))
   \<and> (k < length (arrays (store d) (elementList d)) \<longrightarrow>
        (\<exists>st. layoutAfter P d k = Some st \<and> snd (snd st) \<noteq> []
           \<and> layoutAfter P d (Suc k)
               = rowStep P (options d) (innerWidthOf P d) k
                   (arrays (store d) (elementList d) ! k) st))"
proof (intro conjI impI)
  assume ne: "rows \<noteq> []" and img: "el_type (elems s a) = Some IMAGE"
    and x: "iw = Num x" and full: "row_width (last rows) = Num x"
    and w: "el_width (elems s a) = Some (Num w)" and pos: "0 < w"
  show "\<exists>s1 f1 rows'.
         rowStep P opts iw i a (s, f, rows) = Some (s1, f1, rows')
       \<and> el_width (elems s1 a) = Some (Num 0)
       \<and> el_height (elems s1 a) = Some NaN
       \<and> el_height (last (row_elementList (last rows'))) = Some NaN
       \<and> m_width (re_metrics (last (row_elementList (last rows')))) = Num 0
       \<and> m_boundingBoxDescent (re_metrics (last (row_elementList (last rows')))) = NaN
       \<and> m_height (re_metrics (last (row_elementList (last rows'))))
           = toNumber (el_height (elems s a))
       \<and> (if i \<noteq> 0 \<and> el_value (elems s a) = ZERO P
           then butlast rows' = rows \<and> row_height (last rows') = NaN
           else butlast rows' = butlast rows
                \<and> row_width (last rows') = Num x
                \<and> row_height (last rows') = row_height (last rows)
                \<and> row_ascent (last rows') = row_ascent (last rows))"
    using rowStep_image_full [of rows s a iw w P opts i f] ne img full w pos
    by (simp only: x isNum.simps simp_thms)
next
  assume k: "k < length (arrays (store d) (elementList d))"
  show "\<exists>st. layoutAfter P d k = Some st \<and> snd (snd st) \<noteq> []
           \<and> layoutAfter P d (Suc k)
               = rowStep P (options d) (innerWidthOf P d) k
                   (arrays (store d) (elementList d) ! k) st"
    by (rule layoutAfter_step [OF k])
qed

theorem rowStep_image_nan_witness:
  "1 < length (arrays (store tightDraw) (elementList tightDraw))
   \<and> innerWidthOf demoPlatform tightDraw = Num 10
   \<and> map_option (\<lambda>st. row_width (last (snd (snd st)))) (layoutAfter demoPlatform tightDraw 1)
       = Some (Num 10)
   \<and> (0 :: rat) < 60 \<and> representable (10 + 60)
   \<and> map_option
        (\<lambda>st. (el_width (elems (fst st) 1), el_height (elems (fst st) 1),
               row_height (last (snd (snd st)))))
        (layoutAfter demoPlatform tightDraw 2) = Some (Some (Num 0), Some NaN, Num 26)"
proof -
  have k: "1 < length (arrays (store tightDraw) (elementList tightDraw))"
    and a: "arrays (store tightDraw) (elementList tightDraw) ! 1 = 1"
    by (simp_all add: tightDraw_def demo_defs upt_rec)
  obtain st where before: "layoutAfter demoPlatform tightDraw 1 = Some st"
    and ne: "snd (snd st) \<noteq> []"
    and after: "layoutAfter demoPlatform tightDraw (Suc 1)
        = rowStep demoPlatform (options tightDraw) (innerWidthOf demoPlatform tightDraw) 1
            (arrays (store tightDraw) (elementList tightDraw) ! 1) st"
    using rowStep_image_nan [where P = demoPlatform and d = tightDraw and k = 1,
        THEN conjunct2] k
    by blast
  obtain s f rows where st: "st = (s, f, rows)"
    by (cases st) auto
  have ev: "map_option
        (\<lambda>st. (el_type (elems (fst st) 1), el_width (elems (fst st) 1),
               el_value (elems (fst st) 1), row_width (last (snd (snd st))),
               row_height (last (snd (snd st)))))
        (layoutAfter demoPlatform tightDraw 1)
      = Some (Some IMAGE, Some (Num 60), [], Num 10, Num 26)"
    by (simp add: layoutAfter_def model_defs demo_defs tightDraw_def upt_rec)
  have x: "innerWidthOf demoPlatform tightDraw = Num 10"
    by (simp add: innerWidthOf_def tightDraw_def demo_defs)
  have r: "representable (10 + 60)"
    using representable_of_int [of 70] by simp
  have z: "ZERO demoPlatform \<noteq> []"
    by (simp add: demo_defs)
  have "\<exists>s1 f1 rows'.
         rowStep demoPlatform (options tightDraw) (innerWidthOf demoPlatform tightDraw) 1 1
           (s, f, rows) = Some (s1, f1, rows')
       \<and> el_width (elems s1 1) = Some (Num 0)
       \<and> el_height (elems s1 1) = Some NaN
       \<and> row_height (last rows') = Num 26"
    using rowStep_image_nan
      [where rows = rows and s = s and a = 1 and iw = "innerWidthOf demoPlatform tightDraw"
         and x = 10 and w = 60 and P = demoPlatform and opts = "options tightDraw"
         and i = 1 and f = f,
       THEN conjunct1]
      before ne st ev x r z
    by auto
  then have res: "map_option
        (\<lambda>st. (el_width (elems (fst st) 1), el_height (elems (fst st) 1),
               row_height (last (snd (snd st)))))
        (layoutAfter demoPlatform tightDraw 2) = Some (Some (Num 0), Some NaN, Num 26)"
    using after st a by (auto simp: numeral_2_eq_2)
  show ?thesis
    using k x before ev r res by simp
qed

text \<open>
  The image after \<open>A\<close> finds the row full: its height becomes \<open>NaN\<close>, and the height of
  the row stays 26.
\<close>

theorem row_height_nan_counterexample:
  "computeRowList demoPlatform tightDraw \<noteq> None
   \<and> el_height (elems (store (the (computeRowList demoPlatform tightDraw))) 1) = Some NaN
   \<and> map rowSummary (rowList (the (computeRowList demoPlatform tightDraw)))
       = [([''A'', []], Num 10)]
   \<and> map row_height (rowList (the (computeRowList demoPlatform tightDraw))) = [Num 26]
   \<and> map row_ascent (rowList (the (computeRowList demoPlatform tightDraw))) = [Num 16]"
  by (simp add: model_defs demo_defs tightDraw_def rowSummary_def upt_rec)

section \<open>Frame of the layout pass\<close>

lemmas render_defs = render_def layoutPhase_def paintPhase_def historyPhase_def paintRow_def
  paintElement_def deepClone_def execute_def readList_def

lemma sizeOnly_refl: "sizeOnly e e"
  by (simp add: sizeOnly_def)

lemma sizeOnly_trans:
  assumes "sizeOnly e e'" and "sizeOnly e' e''"
  shows "sizeOnly e e''"
proof -
  have t: "el_type e' = el_type e"
    using assms(1) by (cases e; cases e') (auto simp: sizeOnly_def)
  have "e'' = e\<lparr>el_width := el_width e'', el_height := el_height e''\<rparr>"
    using assms by (cases e; cases e'; cases e'') (auto simp: sizeOnly_def)
  moreover have "el_type e \<noteq> Some IMAGE \<longrightarrow> e'' = e"
    using assms t by (auto simp: sizeOnly_def)
  ultimately show ?thesis
    by (simp add: sizeOnly_def)
qed

lemma measureElement_frame:
  assumes "measureElement P opts iw r a s f = (e, s', f', m)"
  shows "sizeOnly (elems s b) (elems s' b) \<and> arrays s' = arrays s \<and> fresh s' = fresh s"
  using assms
  by (auto simp: measureElement_def imageMetrics_def Let_def sizeOnly_def
      split: if_splits prod.splits)

lemma rowStep_frame:
  assumes "rowStep P opts iw i a (s, f, rows) = Some (s', f', rows')"
  shows "sizeOnly (elems s b) (elems s' b) \<and> arrays s' = arrays s \<and> fresh s' = fresh s"
proof -
  obtain e s1 f1 m where me: "measureElement P opts iw (last rows) a s f = (e, s1, f1, m)"
    by (cases "measureElement P opts iw (last rows) a s f") auto
  have "s' = s1"
    using assms me by (auto simp: rowStep_def Let_def split: if_splits)
  then show ?thesis
    using measureElement_frame [OF me] by simp
qed

lemma rowLoop_frame:
  assumes "rowLoop P opts iw i as (s, f, rows) = Some (s', f', rows')"
  shows "sizeOnly (elems s b) (elems s' b) \<and> arrays s' = arrays s \<and> fresh s' = fresh s"
  using assms
proof (induction as arbitrary: i s f rows)
  case Nil
  then show ?case by (simp add: sizeOnly_refl)
next
  case (Cons a as)
  from Cons.prems obtain s1 f1 rows1
    where st: "rowStep P opts iw i a (s, f, rows) = Some (s1, f1, rows1)"
      and rest: "rowLoop P opts iw (Suc i) as (s1, f1, rows1) = Some (s', f', rows')"
    by (auto split: option.splits)
  show ?case
    using rowStep_frame [OF st, of b] Cons.IH [OF rest] sizeOnly_trans by auto
qed

lemma computeRowList_frame:
  assumes "computeRowList P d = Some d'"
  shows "elementList d' = elementList d \<and> arrays (store d') = arrays (store d)
           \<and> fresh (store d') = fresh (store d)
           \<and> sizeOnly (elems (store d) a) (elems (store d') a)"
  using assms rowLoop_frame
  by (fastforce simp: computeRowList_def Let_def split: option.splits prod.splits)

text \<open>
  C9. The layout pass writes to the live elements: whatever it changes of an element
  is the width and the height, and only of an image; the array of the sequence and all
  other fields stay. A render of the sample shrinks its image of width 100 to 5 in the
  live sequence, and a later layout pass on a canvas wide enough for the intrinsic
  width lays the image out 5 wide (row width 25), where the untouched sequence gives
  a row width of 120.
\<close>

theorem computeRowList_mutates_images_only:
  "(computeRowList P d = Some d' \<longrightarrow>
      elementList d' = elementList d \<and> arrays (store d') = arrays (store d)
      \<and> sizeOnly (elems (store d) a) (elems (store d') a))
   \<and> render demoPlatform None imageDraw \<noteq> None
   \<and> readList (store imageDraw) (elementList imageDraw)
       = [textEl ''A'', textEl ''B'', imageEl 100 50]
   \<and> readList (store (the (render demoPlatform None imageDraw))) (elementList imageDraw)
       = [textEl ''A'', textEl ''B'', imageEl 5 50]
   \<and> map rowSummary
        (rowList (the (computeRowList demoPlatform
           (widen 145 (the (computeRowList demoPlatform imageDraw))))))
       = [([''A'', ''B'', []], Num 25)]
   \<and> map rowSummary (rowList (the (computeRowList demoPlatform (widen 145 imageDraw))))
       = [([''A'', ''B'', []], Num 120)]"
proof (intro conjI impI)
  assume c: "computeRowList P d = Some d'"
  show "elementList d' = elementList d" "arrays (store d') = arrays (store d)"
    "sizeOnly (elems (store d) a) (elems (store d') a)"
    using computeRowList_frame [OF c] by simp_all
next
  show "render demoPlatform None imageDraw \<noteq> None"
    by (simp add: render_defs model_defs demo_defs imageDraw_def upt_rec)
  show "readList (store imageDraw) (elementList imageDraw)
       = [textEl ''A'', textEl ''B'', imageEl 100 50]"
    by (simp add: readList_def demo_defs imageDraw_def upt_rec)
  show "readList (store (the (render demoPlatform None imageDraw))) (elementList imageDraw)
       = [textEl ''A'', textEl ''B'', imageEl 5 50]"
    by (simp add: render_defs model_defs demo_defs imageDraw_def upt_rec)
  show "map rowSummary
        (rowList (the (computeRowList demoPlatform
           (widen 145 (the (computeRowList demoPlatform imageDraw))))))
       = [([''A'', ''B'', []], Num 25)]"
    by (simp add: model_defs demo_defs imageDraw_def widen_def rowSummary_def upt_rec)
  show "map rowSummary (rowList (the (computeRowList demoPlatform (widen 145 imageDraw))))
       = [([''A'', ''B'', []], Num 120)]"
    by (simp add: model_defs demo_defs imageDraw_def widen_def rowSummary_def upt_rec)
qed

theorem computeRowList_mutates_images_only_witness:
  "computeRowList demoPlatform imageDraw \<noteq> None
   \<and> sizeOnly (imageEl 100 50) (elems (store (the (computeRowList demoPlatform imageDraw))) 2)
   \<and> elems (store (the (computeRowList demoPlatform imageDraw))) 2 = imageEl 5 50
   \<and> elems (store (the (computeRowList demoPlatform imageDraw))) 1 = textEl ''B''"
  using computeRowList_mutates_images_only
    [of demoPlatform imageDraw "the (computeRowList demoPlatform imageDraw)" 2]
  by (simp add: model_defs demo_defs imageDraw_def upt_rec)

section \<open>Painting and the position list\<close>

lemma rangePainted_append: "rangePainted (xs @ ys) = rangePainted xs @ rangePainted ys"
  by (induction xs rule: rangePainted.induct) simp_all

lemma paintElement_index: "p_index (paintElement rng i r j e p) = Suc (p_index p)"
  by (simp add: paintElement_def Let_def)

lemma paintElement_positions:
  "map pos_index (p_positionList (paintElement rng i r j e p))
     = map pos_index (p_positionList p) @ [p_index p]"
  by (simp add: paintElement_def Let_def)

lemma paintElement_range:
  "rangePainted (p_calls (paintElement rng i r j e p))
     = rangePainted (p_calls p) @ filter (inRange rng) [p_index p]"
  by (auto simp: paintElement_def Let_def rangePainted_append inRange_def
      split: option.splits)

lemma paintElements_effect:
  "p_index (paintElements rng i r j es p) = p_index p + length es
   \<and> map pos_index (p_positionList (paintElements rng i r j es p))
       = map pos_index (p_positionList p) @ [p_index p ..< p_index p + length es]
   \<and> rangePainted (p_calls (paintElements rng i r j es p))
       = rangePainted (p_calls p) @ filter (inRange rng) [p_index p ..< p_index p + length es]"
proof (induction es arbitrary: j p)
  case Nil
  then show ?case by simp
next
  case (Cons e es)
  have upt: "[p_index p ..< p_index p + length (e # es)]
               = p_index p # [Suc (p_index p) ..< Suc (p_index p) + length es]"
    by (simp add: upt_rec)
  show ?case
    unfolding upt
    using Cons.IH [of "Suc j" "paintElement rng i r j e p"]
    by (simp add: paintElement_index paintElement_positions paintElement_range)
qed

lemma paintRow_effect:
  "p_index (paintRow cv opts rng i r p) = p_index p + length (row_elementList r)
   \<and> map pos_index (p_positionList (paintRow cv opts rng i r p))
       = map pos_index (p_positionList p)
           @ [p_index p ..< p_index p + length (row_elementList r)]
   \<and> rangePainted (p_calls (paintRow cv opts rng i r p))
       = rangePainted (p_calls p)
           @ filter (inRange rng) [p_index p ..< p_index p + length (row_elementList r)]"
  by (simp add: paintRow_def Let_def paintElements_effect rangePainted_append
      split: prod.splits option.splits)

lemma paintRows_effect:
  "p_index (paintRows cv opts rng i rs p) = p_index p + rowCount rs
   \<and> map pos_index (p_positionList (paintRows cv opts rng i rs p))
       = map pos_index (p_positionList p) @ [p_index p ..< p_index p + rowCount rs]
   \<and> rangePainted (p_calls (paintRows cv opts rng i rs p))
       = rangePainted (p_calls p) @ filter (inRange rng) [p_index p ..< p_index p + rowCount rs]"
proof (induction rs arbitrary: i p)
  case Nil
  then show ?case by (simp add: rowCount_def)
next
  case (Cons r rs)
  have cnt: "rowCount (r # rs) = length (row_elementList r) + rowCount rs"
    by (simp add: rowCount_def)
  have upt: "[p_index p ..< p_index p + (length (row_elementList r) + rowCount rs)]
      = [p_index p ..< p_index p + length (row_elementList r)]
        @ [p_index p + length (row_elementList r)
             ..< p_index p + length (row_elementList r) + rowCount rs]"
    by (metis add.assoc le_add1 upt_add_eq_append)
  show ?case
    unfolding cnt upt
    using Cons.IH [of "Suc i" "paintRow cv opts rng i r p"] paintRow_effect [of cv opts rng i r p]
    by simp
qed

lemma paintPhase_effect:
  assumes "paintPhase P c sc d = (k, d')"
  shows "map pos_index (positionList d') = [0..<rowCount (rowList d)]
   \<and> rangePainted (calls d') = rangePainted (calls d)
       @ filter (inRange (range d)) [0..<rowCount (rowList d)]
   \<and> rowList d' = rowList d \<and> store d' = store d \<and> elementList d' = elementList d
   \<and> range d' = range d \<and> historyManager d' = historyManager d"
proof -
  obtain m0 m1 m2 m3 where m: "margins (options d) = (m0, m1, m2, m3)"
    by (cases "margins (options d)") auto
  show ?thesis
    using assms
      paintRows_effect [of "canvas d" "options d" "range d" 0 "rowList d"
        "\<lparr>p_x = m3, p_y = m0, p_index = 0, p_positionList = [],
          p_calls = calls d @
            [CursorRecoveryCursor,
             CtxClearRect (Num 0) (Num 0) (cv_width (canvas d)) (cv_height (canvas d)),
             BackgroundRender (getBoundingClientRect P (canvas d)),
             MarginRender (getBoundingClientRect P (canvas d))]\<rparr>"]
    by (auto simp: paintPhase_def m Let_def rangePainted_append split: option.splits if_splits)
qed

lemma layoutPhase_effect:
  "\<exists>d1. layoutPhase P c d = Some d1
     \<and> calls d1 = calls d \<and> range d1 = range d \<and> historyManager d1 = historyManager d
     \<and> elementList d1 = elementList d \<and> arrays (store d1) = arrays (store d)
     \<and> fresh (store d1) = fresh (store d)
     \<and> (\<forall>a. sizeOnly (elems (store d) a) (elems (store d1) a))
     \<and> (\<not> c \<longrightarrow> d1 = d)"
proof (cases c)
  case False
  then show ?thesis by (simp add: layoutPhase_def sizeOnly_refl)
next
  case True
  obtain d0 where c0: "computeRowList P d = Some d0"
    using computeRowList_total [of P d] by blast
  have keep: "calls d0 = calls d" "range d0 = range d" "historyManager d0 = historyManager d"
    using c0 by (auto simp: computeRowList_def Let_def split: option.splits prod.splits)
  obtain m0 m1 m2 m3 where m: "margins (options d0) = (m0, m1, m2, m3)"
    by (cases "margins (options d0)") auto
  show ?thesis
    using True c0 keep computeRowList_frame [OF c0]
    by (simp add: layoutPhase_def m Let_def)
qed

lemma render_unfold:
  "render P payload d =
     (case layoutPhase P (computesRows payload) d of
        None \<Rightarrow> None
      | Some d1 \<Rightarrow>
          Some (if submitsHistory payload
                then historyPhase
                       (fst (paintPhase P (targetIndex payload) (setsCursor payload) d1))
                       (snd (paintPhase P (targetIndex payload) (setsCursor payload) d1))
                else snd (paintPhase P (targetIndex payload) (setsCursor payload) d1)))"
  by (simp add: render_def computesRows_def submitsHistory_def setsCursor_def targetIndex_def
      Let_def split: prod.splits option.splits)

lemma historyPhase_keeps:
  "positionList (historyPhase k d) = positionList d \<and> calls (historyPhase k d) = calls d
   \<and> rowList (historyPhase k d) = rowList d \<and> range (historyPhase k d) = range d
   \<and> elementList (historyPhase k d) = elementList d"
  by (simp add: historyPhase_def Let_def split: prod.splits)

lemma render_paint:
  "\<exists>d'. render P payload d = Some d'
     \<and> map pos_index (positionList d') = [0..<rowCount (rowList d')]
     \<and> rangePainted (calls d') = rangePainted (calls d)
         @ filter (inRange (range d)) [0..<rowCount (rowList d')]"
proof -
  obtain d1 where l: "layoutPhase P (computesRows payload) d = Some d1"
    and keep: "calls d1 = calls d" "range d1 = range d"
    using layoutPhase_effect [of P "computesRows payload" d] by blast
  obtain k d2 where p: "paintPhase P (targetIndex payload) (setsCursor payload) d1 = (k, d2)"
    by (cases "paintPhase P (targetIndex payload) (setsCursor payload) d1") auto
  show ?thesis
    using l p keep paintPhase_effect [OF p]
    by (simp add: render_unfold historyPhase_keeps)
qed

text \<open>
  C7. Every render returns, and afterwards the position list has one entry per member
  of the rows, in order, with \<open>positionList[i].index = i\<close>.
\<close>

theorem render_position_index:
  "\<exists>d'. render P payload d = Some d'
     \<and> length (positionList d') = rowCount (rowList d')
     \<and> (\<forall>i < length (positionList d'). pos_index (positionList d' ! i) = i)"
proof -
  obtain d' where r: "render P payload d = Some d'"
    and idx: "map pos_index (positionList d') = [0..<rowCount (rowList d')]"
    using render_paint [of P payload d] by blast
  have len: "length (positionList d') = rowCount (rowList d')"
    using idx by (metis length_map length_upt minus_nat.diff_0)
  have "pos_index (positionList d' ! i) = i" if "i < length (positionList d')" for i
  proof -
    have "pos_index (positionList d' ! i) = map pos_index (positionList d') ! i"
      using that by simp
    also have "\<dots> = i"
      using that len by (simp add: idx)
    finally show ?thesis .
  qed
  then show ?thesis
    using r len by simp
qed

theorem render_position_index_witness:
  "render demoPlatform None imageDraw \<noteq> None
   \<and> map pos_index (positionList (the (render demoPlatform None imageDraw))) = [0, 1, 2]
   \<and> map pos_rowNo (positionList (the (render demoPlatform None imageDraw))) = [0, 0, 0]
   \<and> rowCount (rowList (the (render demoPlatform None imageDraw))) = 3"
proof (intro conjI)
  show "render demoPlatform None imageDraw \<noteq> None"
    using render_position_index [of demoPlatform None imageDraw] by auto
  show "map pos_index (positionList (the (render demoPlatform None imageDraw))) = [0, 1, 2]"
    by (simp add: render_defs model_defs demo_defs imageDraw_def upt_rec)
  show "map pos_rowNo (positionList (the (render demoPlatform None imageDraw))) = [0, 0, 0]"
    by (simp add: render_defs model_defs demo_defs imageDraw_def upt_rec)
  show "rowCount (rowList (the (render demoPlatform None imageDraw))) = 3"
    by (simp add: render_defs model_defs demo_defs imageDraw_def rowCount_def upt_rec)
qed

text \<open>
  C1 (amended). With the range from \<open>a\<close> to \<open>b\<close>, a render paints the selection
  rectangle over exactly the elements whose running index \<open>i\<close> satisfies
  \<open>a < i\<close> and \<open>i \<le> b\<close>, in order: the interval is open at \<open>a\<close> and closed at \<open>b\<close>.
  Nothing is painted for a collapsed range.
\<close>

theorem render_selection_painted:
  "\<exists>d'. render P payload d = Some d'
     \<and> rangePainted (calls d') = rangePainted (calls d)
         @ filter (inRange (range d)) [0..<length (positionList d')]"
proof -
  obtain d' where r: "render P payload d = Some d'"
    and idx: "map pos_index (positionList d') = [0..<rowCount (rowList d')]"
    and rp: "rangePainted (calls d') = rangePainted (calls d)
         @ filter (inRange (range d)) [0..<rowCount (rowList d')]"
    using render_paint [of P payload d] by blast
  have "length (positionList d') = rowCount (rowList d')"
    using idx by (metis length_map length_upt minus_nat.diff_0)
  then show ?thesis
    using r rp by simp
qed

theorem render_selection_painted_witness:
  "render demoPlatform None selDraw2 \<noteq> None
   \<and> length (positionList (the (render demoPlatform None selDraw2))) = 3
   \<and> rangePainted (calls (the (render demoPlatform None selDraw2))) = [1, 2]"
proof (intro conjI)
  show "render demoPlatform None selDraw2 \<noteq> None"
    using render_selection_painted [of demoPlatform None selDraw2] by auto
  show "length (positionList (the (render demoPlatform None selDraw2))) = 3"
    by (simp add: render_defs model_defs demo_defs selDraw2_def upt_rec)
  show "rangePainted (calls (the (render demoPlatform None selDraw2))) = [1, 2]"
    by (simp add: render_defs model_defs demo_defs selDraw2_def upt_rec)
qed

text \<open>
  For the range from 1 to 3 over five elements the rectangle is painted at the indices
  2 and 3, not at 1 and 2.
\<close>

theorem selection_counterexample:
  "render demoPlatform None selDraw \<noteq> None
   \<and> range selDraw = \<lparr>startIndex = 1, endIndex = 3\<rparr>
   \<and> map pos_index (positionList (the (render demoPlatform None selDraw))) = [0, 1, 2, 3, 4]
   \<and> rangePainted (calls (the (render demoPlatform None selDraw))) = [2, 3]"
  by (simp add: render_defs model_defs demo_defs selDraw_def upt_rec)

section \<open>History capture\<close>

lemma cloneElems_effect:
  assumes "cloneElems as s = (bs, s')"
  shows "bs = [fresh s ..< fresh s + length as] \<and> fresh s' = fresh s + length as
         \<and> arrays s' = arrays s \<and> (\<forall>b < fresh s. elems s' b = elems s b)"
  using assms
proof (induction as arbitrary: s bs s')
  case Nil
  then show ?case by simp
next
  case (Cons a as)
  let ?s1 = "s\<lparr>elems := (elems s)(fresh s := elems s a), fresh := Suc (fresh s)\<rparr>"
  obtain bs1 s2 where rest: "cloneElems as ?s1 = (bs1, s2)"
    by (cases "cloneElems as ?s1") auto
  have res: "bs = fresh s # bs1" "s' = s2"
    using Cons.prems rest by (simp_all add: Let_def)
  show ?case
    using Cons.IH [OF rest] res by (simp add: upt_rec)
qed

lemma cloneElems_copy:
  assumes "cloneElems as s = (bs, s')" and "\<forall>a \<in> set as. a < fresh s"
  shows "map (elems s') bs = map (elems s) as"
  using assms
proof (induction as arbitrary: s bs s')
  case Nil
  then show ?case by simp
next
  case (Cons a as)
  let ?s1 = "s\<lparr>elems := (elems s)(fresh s := elems s a), fresh := Suc (fresh s)\<rparr>"
  obtain bs1 s2 where rest: "cloneElems as ?s1 = (bs1, s2)"
    by (cases "cloneElems as ?s1") auto
  have res: "bs = fresh s # bs1" "s' = s2"
    using Cons.prems(1) rest by (simp_all add: Let_def)
  have old: "\<forall>a \<in> set as. a < fresh ?s1"
    using Cons.prems(2) by auto
  have head: "elems s2 (fresh s) = elems s a"
    using cloneElems_effect [OF rest] by simp
  have "map (elems s2) bs1 = map (elems ?s1) as"
    using Cons.IH [OF rest old] .
  also have "\<dots> = map (elems s) as"
    using Cons.prems(2) by auto
  finally show ?case
    using res head by simp
qed

lemma deepClone_effect:
  assumes dc: "deepClone arr s = (new, s')"
    and wf: "arr < fresh s" "\<forall>a \<in> set (arrays s arr). a < fresh s"
  shows "readList s' new = readList s arr"
    and "fresh s \<le> new"
    and "\<forall>b \<in> set (arrays s' new). fresh s \<le> b"
    and "\<forall>b < fresh s. elems s' b = elems s b \<and> arrays s' b = arrays s b"
proof -
  obtain bs s1 where ce: "cloneElems (arrays s arr) s = (bs, s1)"
    by (cases "cloneElems (arrays s arr) s") auto
  have new: "new = fresh s1"
    and s': "s' = s1\<lparr>arrays := (arrays s1)(fresh s1 := bs), fresh := Suc (fresh s1)\<rparr>"
    using dc ce by (auto simp: deepClone_def)
  note eff = cloneElems_effect [OF ce]
  show "readList s' new = readList s arr"
    using cloneElems_copy [OF ce wf(2)] by (simp add: readList_def new s')
  show "fresh s \<le> new"
    using eff by (simp add: new)
  show "\<forall>b \<in> set (arrays s' new). fresh s \<le> b"
    using eff by (simp add: new s')
  show "\<forall>b < fresh s. elems s' b = elems s b \<and> arrays s' b = arrays s b"
    using eff by (simp add: s')
qed

lemma readList_agree:
  assumes "arrays s2 arr = arrays s1 arr"
    and "\<forall>b \<in> set (arrays s1 arr). elems s2 b = elems s1 b"
  shows "readList s2 arr = readList s1 arr"
  using assms by (simp add: readList_def)

lemma historyPhase_effect:
  assumes ok: "storeOk d"
  shows "\<exists>fn. undoStack (historyManager (historyPhase k d)) = undoStack (historyManager d) @ [fn]
     \<and> hs_startIndex fn = startIndex (range d) \<and> hs_endIndex fn = endIndex (range d)
     \<and> readList (store (historyPhase k d)) (hs_oldElementList fn) = readList (store d) (elementList d)
     \<and> readList (store (historyPhase k d)) (elementList d) = readList (store d) (elementList d)
     \<and> arrays (store (historyPhase k d)) (elementList d) = arrays (store d) (elementList d)
     \<and> fresh (store d) \<le> hs_oldElementList fn
     \<and> (\<forall>b \<in> set (arrays (store (historyPhase k d)) (hs_oldElementList fn)). fresh (store d) \<le> b)"
proof -
  obtain new s1 where dc: "deepClone (elementList d) (store d) = (new, s1)"
    by (cases "deepClone (elementList d) (store d)") auto
  have wf: "elementList d < fresh (store d)"
    "\<forall>a \<in> set (arrays (store d) (elementList d)). a < fresh (store d)"
    using ok by (simp_all add: storeOk_def list_all_iff)
  note eff = deepClone_effect [OF dc wf]
  have live: "readList s1 (elementList d) = readList (store d) (elementList d)"
    using eff(4) wf by (intro readList_agree) auto
  have hp: "historyPhase k d =
      d\<lparr>store := s1,
        historyManager := execute
          \<lparr>hs_oldElementList = new, hs_startIndex = startIndex (range d),
            hs_endIndex = endIndex (range d), hs_curIndex = k\<rparr> (historyManager d)\<rparr>"
    using dc by (simp add: historyPhase_def)
  show ?thesis
    using eff live wf by (simp add: hp execute_def)
qed

text \<open>
  C2 (amended). A render with history capture pushes one history entry. The entry
  holds the range as it was before the render and a deep copy of the element sequence
  as the render leaves it, that is after the layout pass of this very render: the copy
  differs from the sequence before the render at most in the widths and heights of
  images, and equals it when the layout is not recomputed. The copy lives in objects
  and an array allocated by the render, so writing to any element of the live
  sequence, or to the live array, does not change it.
\<close>

theorem render_history_snapshot:
  assumes ok: "storeOk d" and sub: "submitsHistory payload"
  shows "\<exists>d' fn. render P payload d = Some d'
     \<and> undoStack (historyManager d') = undoStack (historyManager d) @ [fn]
     \<and> hs_startIndex fn = startIndex (range d) \<and> hs_endIndex fn = endIndex (range d)
     \<and> elementList d' = elementList d
     \<and> readList (store d') (hs_oldElementList fn) = readList (store d') (elementList d')
     \<and> list_all2 sizeOnly (readList (store d) (elementList d))
           (readList (store d') (hs_oldElementList fn))
     \<and> (\<not> computesRows payload \<longrightarrow>
           readList (store d') (hs_oldElementList fn) = readList (store d) (elementList d))
     \<and> fresh (store d) \<le> hs_oldElementList fn
     \<and> list_all (\<lambda>b. fresh (store d) \<le> b) (arrays (store d') (hs_oldElementList fn))
     \<and> (a \<in> set (arrays (store d') (elementList d')) \<longrightarrow>
           readList ((store d')\<lparr>elems := (elems (store d'))(a := e)\<rparr>) (hs_oldElementList fn)
             = readList (store d') (hs_oldElementList fn))
     \<and> readList ((store d')\<lparr>arrays := (arrays (store d'))(elementList d' := xs)\<rparr>)
           (hs_oldElementList fn)
         = readList (store d') (hs_oldElementList fn)"
proof -
  obtain d1 where l: "layoutPhase P (computesRows payload) d = Some d1"
    and l_el: "elementList d1 = elementList d"
    and l_arr: "arrays (store d1) = arrays (store d)"
    and l_fresh: "fresh (store d1) = fresh (store d)"
    and l_size: "\<forall>a. sizeOnly (elems (store d) a) (elems (store d1) a)"
    and l_rng: "range d1 = range d" and l_hist: "historyManager d1 = historyManager d"
    and l_same: "\<not> computesRows payload \<longrightarrow> d1 = d"
    using layoutPhase_effect [of P "computesRows payload" d] by blast
  obtain k d2 where p: "paintPhase P (targetIndex payload) (setsCursor payload) d1 = (k, d2)"
    by (cases "paintPhase P (targetIndex payload) (setsCursor payload) d1") auto
  have p_keep: "store d2 = store d1" "elementList d2 = elementList d1" "range d2 = range d1"
    "historyManager d2 = historyManager d1"
    using paintPhase_effect [OF p] by simp_all
  have ok2: "storeOk d2"
    using ok by (simp add: storeOk_def p_keep l_el l_arr l_fresh)
  let ?d' = "historyPhase k d2"
  have r: "render P payload d = Some ?d'"
    using l p sub by (simp add: render_unfold)
  obtain fn where h_stack: "undoStack (historyManager ?d') = undoStack (historyManager d2) @ [fn]"
    and h_rng: "hs_startIndex fn = startIndex (range d2)" "hs_endIndex fn = endIndex (range d2)"
    and h_copy: "readList (store ?d') (hs_oldElementList fn) = readList (store d2) (elementList d2)"
    and h_live: "readList (store ?d') (elementList d2) = readList (store d2) (elementList d2)"
    and h_arr: "arrays (store ?d') (elementList d2) = arrays (store d2) (elementList d2)"
    and h_new: "fresh (store d2) \<le> hs_oldElementList fn"
    and h_news: "\<forall>b \<in> set (arrays (store ?d') (hs_oldElementList fn)). fresh (store d2) \<le> b"
    using historyPhase_effect [OF ok2, of k] by blast
  have h_el: "elementList ?d' = elementList d2"
    using historyPhase_keeps [of k d2] by simp
  have size: "list_all2 sizeOnly (readList (store d) (elementList d))
                (readList (store d2) (elementList d2))"
    using l_size
    by (simp add: readList_def p_keep l_el l_arr list_all2_map1 list_all2_map2 list_all2_same)
  have live_old: "elementList d2 < fresh (store d2)"
    "\<forall>b \<in> set (arrays (store ?d') (elementList d2)). b < fresh (store d2)"
    using ok2 h_arr by (simp_all add: storeOk_def list_all_iff)
  have stable_e: "readList ((store ?d')\<lparr>elems := (elems (store ?d'))(a := e)\<rparr>)
                    (hs_oldElementList fn) = readList (store ?d') (hs_oldElementList fn)"
    if "a \<in> set (arrays (store ?d') (elementList ?d'))"
  proof (rule readList_agree)
    have "a < fresh (store d2)"
      using that live_old(2) by (simp add: h_el)
    then show "\<forall>b \<in> set (arrays (store ?d') (hs_oldElementList fn)).
                 elems ((store ?d')\<lparr>elems := (elems (store ?d'))(a := e)\<rparr>) b
                   = elems (store ?d') b"
      using h_news by auto
  qed simp
  have stable_a: "readList ((store ?d')\<lparr>arrays := (arrays (store ?d'))(elementList ?d' := xs)\<rparr>)
                    (hs_oldElementList fn) = readList (store ?d') (hs_oldElementList fn)"
    using live_old(1) h_new by (intro readList_agree) (auto simp: h_el)
  show ?thesis
    using r h_stack h_rng h_copy h_live h_new h_news h_el size stable_e stable_a l_same
    by (auto simp: p_keep l_el l_fresh l_rng l_hist list_all_iff)
qed

theorem render_history_snapshot_witness:
  "storeOk roomyDraw \<and> submitsHistory None
   \<and> render demoPlatform None roomyDraw \<noteq> None
   \<and> length (undoStack (historyManager (the (render demoPlatform None roomyDraw)))) = 1
   \<and> snapshot (the (render demoPlatform None roomyDraw))
       = readList (store (the (render demoPlatform None roomyDraw))) (elementList roomyDraw)"
proof (intro conjI)
  show ok: "storeOk roomyDraw"
    by (simp add: storeOk_def demo_defs roomyDraw_def upt_rec)
  show sub: "submitsHistory None"
    by (simp add: submitsHistory_def)
  show "render demoPlatform None roomyDraw \<noteq> None"
    using render_history_snapshot
      [OF ok sub, where P = demoPlatform and a = 0 and e = "textEl []" and xs = "[]"]
    by blast
  show "length (undoStack (historyManager (the (render demoPlatform None roomyDraw)))) = 1"
    by (simp add: render_defs model_defs demo_defs roomyDraw_def upt_rec)
  show "snapshot (the (render demoPlatform None roomyDraw))
       = readList (store (the (render demoPlatform None roomyDraw))) (elementList roomyDraw)"
    by (simp add: snapshot_def render_defs model_defs demo_defs roomyDraw_def upt_rec)
qed

text \<open>
  The image of the sample is 100 wide before the render; the history entry of the
  render holds it 40 wide, as the layout pass left it.
\<close>

theorem history_snapshot_counterexample:
  "render demoPlatform None roomyDraw \<noteq> None
   \<and> map el_width (readList (store roomyDraw) (elementList roomyDraw))
       = [None, None, None, None, Some (Num 100)]
   \<and> map el_width (snapshot (the (render demoPlatform None roomyDraw)))
       = [None, None, None, None, Some (Num 40)]"
  by (simp add: snapshot_def render_defs model_defs demo_defs roomyDraw_def upt_rec)

end
